theory Spec2Isabelle
  imports Complex_Main "HOL-Library.Multiset"
begin

section \<open>Klondike solitaire: the game logic of the \<open>Game\<close> object\<close>

text \<open>
  The theory embeds the rules engine (the object \<open>Game\<close>): cards and piles, the
  undo history, the placement predicates, draw, move, auto-move, the hint search, the
  seeded generator and the deal.

  Conventions of the embedding.
  \<^item> A JavaScript array of card objects is a list of \<open>card option\<close>: \<open>None\<close>
    stands for an element that is no card object (\<open>undefined\<close>, or \<open>null\<close> after
    the JSON round trip of the history). The top of a pile is the last element.
  \<^item> Reading a property of \<open>undefined\<close> or \<open>null\<close>, or calling a method on a
    pile that does not exist, raises a \<open>TypeError\<close> in JavaScript: the functions that
    can do so return \<open>error + 'a\<close>, with \<open>Inl TypeError\<close> for the exception.
  \<^item> The mutable object \<open>Game.state\<close> is passed in and returned; \<open>Game.settings\<close>
    is an argument.
  \<^item> Indices are natural numbers; a field of a location descriptor that is absent is
    \<open>None\<close>.
\<close>

subsection \<open>Cards, piles and the state\<close>

datatype suit = hearts | diamonds | clubs | spades

definition SUITS :: "suit list" where
  "SUITS = [hearts, diamonds, clubs, spades]"

definition RED_SUITS :: "suit list" where
  "RED_SUITS = [hearts, diamonds]"

definition BLACK_SUITS :: "suit list" where
  "BLACK_SUITS = [clubs, spades]"

text \<open>
  The field \<open>id\<close> of a card is the string \<open>suit-rank\<close>; the pair of the suit and the
  rank stands for it (the string determines the pair and the pair the string).
\<close>

record card =
  suit :: suit
  rank :: int
  faceUp :: bool
  id_card :: "suit \<times> int"

type_synonym pile = "card option list"

datatype error = TypeError

text \<open>
  The six fields that \<open>saveState\<close> serialises, and the state that extends them.
\<close>

record snapshot =
  stock :: pile
  waste :: pile
  foundations :: "pile list"
  tableau :: "pile list"
  moves :: int
  score :: int

record state = snapshot +
  history :: "snapshot list"
  startTime :: int
  seed :: int

record settings =
  drawCount :: int
  scoring :: string

definition createCard :: "suit \<Rightarrow> int \<Rightarrow> card" where
  "createCard su r = \<lparr>suit = su, rank = r, faceUp = False, id_card = (su, r)\<rparr>"

subsection \<open>History\<close>

text \<open>
  \<open>saveState\<close> pushes the serialised six fields and drops the oldest entry once more
  than 50 are held. \<open>JSON.parse (JSON.stringify x)\<close> gives back an equal value for
  the strings, numbers, booleans and arrays a snapshot is made of.
\<close>

definition saveState :: "state \<Rightarrow> state" where
  "saveState s =
     (let h = history s @
                [\<lparr>stock = stock s, waste = waste s, foundations = foundations s,
                  tableau = tableau s, moves = moves s, score = score s\<rparr>]
      in s\<lparr>history := (if length h > 50 then tl h else h)\<rparr>)"

definition undo :: "state \<Rightarrow> bool \<times> state" where
  "undo s =
     (if length (history s) = 0 then (False, s)
      else
        let previous = last (history s);
            s1 = s\<lparr>history := butlast (history s)\<rparr>
        in (True, s1\<lparr>stock := stock previous, waste := waste previous,
                      foundations := foundations previous, tableau := tableau previous,
                      moves := moves previous, score := score previous\<rparr>))"

subsection \<open>Placement rules\<close>

definition isRed :: "card \<Rightarrow> bool" where
  "isRed c = (suit c \<in> set RED_SUITS)"

definition areOppositeColors :: "card \<Rightarrow> card \<Rightarrow> bool" where
  "areOppositeColors card1 card2 = (isRed card1 \<noteq> isRed card2)"

text \<open>
  \<open>SUITS.indexOf suit\<close>: the position of the first occurrence. Every suit occurs in
  \<open>SUITS\<close>, so the answer \<open>-1\<close> of \<open>indexOf\<close> for a missing element does not arise.
\<close>

definition getFoundationIndex :: "suit \<Rightarrow> nat" where
  "getFoundationIndex su = length (takeWhile (\<lambda>x. x \<noteq> su) SUITS)"

text \<open>
  The suit test comes first: with an index outside \<open>SUITS\<close> the expected suit is
  \<open>undefined\<close>, no card has it, and the answer is \<open>false\<close> before the pile is read.
\<close>

definition canPlaceOnFoundation :: "state \<Rightarrow> card \<Rightarrow> nat \<Rightarrow> error + bool" where
  "canPlaceOnFoundation s c foundationIndex =
     (if \<not> (foundationIndex < length SUITS \<and> suit c = SUITS ! foundationIndex)
      then Inr False
      else if \<not> foundationIndex < length (foundations s) then Inl TypeError
      else
        let foundation = foundations s ! foundationIndex
        in if length foundation = 0 then Inr (rank c = 1)
           else (case last foundation of
                   None \<Rightarrow> Inl TypeError
                 | Some topCard \<Rightarrow> Inr (rank c = rank topCard + 1)))"

definition canPlaceOnTableau :: "state \<Rightarrow> card \<Rightarrow> nat \<Rightarrow> error + bool" where
  "canPlaceOnTableau s c tableauIndex =
     (if \<not> tableauIndex < length (tableau s) then Inl TypeError
      else
        let pile = tableau s ! tableauIndex
        in if length pile = 0 then Inr (rank c = 13)
           else (case last pile of
                   None \<Rightarrow> Inl TypeError
                 | Some topCard \<Rightarrow>
                     Inr (faceUp topCard \<and> areOppositeColors c topCard \<and>
                          rank c = rank topCard - 1)))"

subsection \<open>Drawing from the stock\<close>

text \<open>
  The callback of the reset, mapped over the reversed waste: it sets \<open>faceUp\<close> of
  each element to \<open>false\<close>, which raises at an element that is no card.
\<close>

fun flipDown :: "pile \<Rightarrow> error + pile" where
  "flipDown [] = Inr []"
| "flipDown (None # xs) = Inl TypeError"
| "flipDown (Some c # xs) =
     (case flipDown xs of
        Inl e \<Rightarrow> Inl e
      | Inr ys \<Rightarrow> Inr (Some (c\<lparr>faceUp := False\<rparr>) # ys))"

text \<open>
  The draw loop, \<open>count\<close> times: pop the stock, turn the card face up, push it on the
  waste.
\<close>

fun drawLoop :: "nat \<Rightarrow> pile \<Rightarrow> pile \<Rightarrow> error + (pile \<times> pile)" where
  "drawLoop 0 st wa = Inr (st, wa)"
| "drawLoop (Suc n) st wa =
     (if st = [] then Inl TypeError
      else (case last st of
              None \<Rightarrow> Inl TypeError
            | Some c \<Rightarrow> drawLoop n (butlast st) (wa @ [Some (c\<lparr>faceUp := True\<rparr>)])))"

definition drawFromStock :: "settings \<Rightarrow> state \<Rightarrow> error + (bool \<times> state)" where
  "drawFromStock cfg s =
     (if length (stock s) = 0 then
        (if length (waste s) = 0 then Inr (False, s)
         else
           let s1 = saveState s
           in (case flipDown (rev (waste s1)) of
                 Inl e \<Rightarrow> Inl e
               | Inr newStock \<Rightarrow>
                   let s2 = s1\<lparr>stock := newStock, waste := []\<rparr>;
                       s3 = (if scoring cfg = ''vegas''
                             then s2\<lparr>score := max 0 (score s2 - 100)\<rparr> else s2)
                   in Inr (True, s3)))
      else
        let s1 = saveState s;
            count = min (drawCount cfg) (int (length (stock s1)))
        in (case drawLoop (nat count) (stock s1) (waste s1) of
              Inl e \<Rightarrow> Inl e
            | Inr (st, wa) \<Rightarrow>
                Inr (True, s1\<lparr>stock := st, waste := wa, moves := moves s1 + 1\<rparr>)))"

subsection \<open>Locating and moving cards\<close>

text \<open>
  A location descriptor: the tag \<open>location\<close> and the optional fields \<open>pileIndex\<close>
  and \<open>index\<close>.
\<close>

record descriptor =
  location :: string
  pileIndex :: "nat option"
  index :: "nat option"

text \<open>
  \<open>findIndex\<close> with the callback \<open>c.id === cardId\<close>: \<open>Inr None\<close> is the answer
  \<open>-1\<close>; the callback raises at an element that is no card.
\<close>

fun findIndex :: "suit \<times> int \<Rightarrow> pile \<Rightarrow> error + nat option" where
  "findIndex cardId [] = Inr None"
| "findIndex cardId (None # xs) = Inl TypeError"
| "findIndex cardId (Some c # xs) =
     (if id_card c = cardId then Inr (Some 0)
      else (case findIndex cardId xs of
              Inl e \<Rightarrow> Inl e
            | Inr None \<Rightarrow> Inr None
            | Inr (Some k) \<Rightarrow> Inr (Some (Suc k))))"

text \<open>
  The two loops of \<open>findCard\<close> over the pile indices \<open>is\<close> of a pile group \<open>ps\<close>
  with the tag \<open>tag\<close>; \<open>Inr None\<close>: the card is in none of them.
\<close>

fun findInPiles :: "string \<Rightarrow> suit \<times> int \<Rightarrow> pile list \<Rightarrow> nat list \<Rightarrow> error + descriptor option" where
  "findInPiles tag cardId ps [] = Inr None"
| "findInPiles tag cardId ps (i # is) =
     (if \<not> i < length ps then Inl TypeError
      else (case findIndex cardId (ps ! i) of
              Inl e \<Rightarrow> Inl e
            | Inr (Some foundIndex) \<Rightarrow>
                Inr (Some \<lparr>location = tag, pileIndex = Some i, index = Some foundIndex\<rparr>)
            | Inr None \<Rightarrow> findInPiles tag cardId ps is))"

definition findCard :: "state \<Rightarrow> suit \<times> int \<Rightarrow> error + descriptor option" where
  "findCard s cardId =
     (case findIndex cardId (waste s) of
        Inl e \<Rightarrow> Inl e
      | Inr (Some wasteIndex) \<Rightarrow>
          Inr (Some \<lparr>location = ''waste'', pileIndex = None, index = Some wasteIndex\<rparr>)
      | Inr None \<Rightarrow>
          (case findInPiles ''foundation'' cardId (foundations s) [0..<4] of
             Inl e \<Rightarrow> Inl e
           | Inr (Some d) \<Rightarrow> Inr (Some d)
           | Inr None \<Rightarrow> findInPiles ''tableau'' cardId (tableau s) [0..<7]))"

definition getTopWasteCard :: "state \<Rightarrow> card option" where
  "getTopWasteCard s = (if length (waste s) = 0 then None else last (waste s))"

text \<open>
  \<open>pop\<close> of an array: the last element and the rest; on an empty array the result is
  \<open>undefined\<close> and the array stays empty.
\<close>

definition pop :: "pile \<Rightarrow> card option \<times> pile" where
  "pop xs = (if xs = [] then (None, []) else (last xs, butlast xs))"

text \<open>
  The first half of \<open>moveCards\<close>: the cards taken from the source, whether the new top
  card of a tableau source was turned face up, and the state without the cards.
  \<open>splice\<close> with an absent index starts at 0.
\<close>

definition removeFromSource :: "descriptor \<Rightarrow> state \<Rightarrow> error + (pile \<times> bool \<times> state)" where
  "removeFromSource fromLocation s =
     (if location fromLocation = ''waste'' then
        (let (c, rest) = pop (waste s) in Inr ([c], False, s\<lparr>waste := rest\<rparr>))
      else if location fromLocation = ''foundation'' then
        (case pileIndex fromLocation of
           None \<Rightarrow> Inl TypeError
         | Some i \<Rightarrow>
             if \<not> i < length (foundations s) then Inl TypeError
             else
               let (c, rest) = pop (foundations s ! i)
               in Inr ([c], False, s\<lparr>foundations := (foundations s)[i := rest]\<rparr>))
      else if location fromLocation = ''tableau'' then
        (case pileIndex fromLocation of
           None \<Rightarrow> Inl TypeError
         | Some i \<Rightarrow>
             if \<not> i < length (tableau s) then Inl TypeError
             else
               let start = (case index fromLocation of None \<Rightarrow> 0 | Some j \<Rightarrow> j);
                   cards = drop start (tableau s ! i);
                   pile = take start (tableau s ! i)
               in if length pile > 0 then
                    (case last pile of
                       None \<Rightarrow> Inl TypeError
                     | Some newTop \<Rightarrow>
                         if \<not> faceUp newTop then
                           Inr (cards, True,
                                s\<lparr>tableau := (tableau s)
                                    [i := butlast pile @ [Some (newTop\<lparr>faceUp := True\<rparr>)]]\<rparr>)
                         else Inr (cards, False, s\<lparr>tableau := (tableau s)[i := pile]\<rparr>))
                  else Inr (cards, False, s\<lparr>tableau := (tableau s)[i := pile]\<rparr>))
      else Inr ([], False, s))"

text \<open>The second half of \<open>moveCards\<close>: push the cards on the destination and score.\<close>

definition addToDestination ::
  "settings \<Rightarrow> descriptor \<Rightarrow> pile \<Rightarrow> bool \<Rightarrow> state \<Rightarrow> error + state" where
  "addToDestination cfg toLocation cards sourceFlipped s =
     (if location toLocation = ''foundation'' then
        (case pileIndex toLocation of
           None \<Rightarrow> Inl TypeError
         | Some i \<Rightarrow>
             if \<not> i < length (foundations s) then Inl TypeError
             else
               let s1 = s\<lparr>foundations := (foundations s)[i := foundations s ! i @ cards]\<rparr>
               in if scoring cfg = ''standard'' then Inr (s1\<lparr>score := score s1 + 10\<rparr>)
                  else if scoring cfg = ''vegas'' then Inr (s1\<lparr>score := score s1 + 5\<rparr>)
                  else Inr s1)
      else if location toLocation = ''tableau'' then
        (case pileIndex toLocation of
           None \<Rightarrow> Inl TypeError
         | Some i \<Rightarrow>
             if \<not> i < length (tableau s) then Inl TypeError
             else
               let s1 = s\<lparr>tableau := (tableau s)[i := tableau s ! i @ cards]\<rparr>
               in if sourceFlipped \<and> scoring cfg = ''standard''
                  then Inr (s1\<lparr>score := score s1 + 5\<rparr>)
                  else Inr s1)
      else Inr s)"

definition moveCards :: "settings \<Rightarrow> descriptor \<Rightarrow> descriptor \<Rightarrow> state \<Rightarrow> error + (bool \<times> state)" where
  "moveCards cfg fromLocation toLocation s =
     (case removeFromSource fromLocation (saveState s) of
        Inl e \<Rightarrow> Inl e
      | Inr (cards, sourceFlipped, s1) \<Rightarrow>
          (case addToDestination cfg toLocation cards sourceFlipped s1 of
             Inl e \<Rightarrow> Inl e
           | Inr s2 \<Rightarrow> Inr (True, s2\<lparr>moves := moves s2 + 1\<rparr>)))"

subsection \<open>Auto-move\<close>

text \<open>An array element read by index: \<open>undefined\<close> outside the array.\<close>

definition slotAt :: "pile \<Rightarrow> nat \<Rightarrow> card option" where
  "slotAt xs i = (if i < length xs then xs ! i else None)"

text \<open>
  The card that \<open>tryAutoMove\<close> reads at the location found. A location on a foundation
  yields the element without reading a property of it; a tableau location reads
  \<open>faceUp\<close>, and the later calls read \<open>suit\<close> and \<open>rank\<close>.
\<close>

definition cardAt :: "state \<Rightarrow> descriptor \<Rightarrow> error + card option" where
  "cardAt s loc =
     (let i = (case index loc of None \<Rightarrow> 0 | Some k \<Rightarrow> k)
      in if location loc = ''waste'' then Inr (slotAt (waste s) i)
         else (case pileIndex loc of
                 None \<Rightarrow> Inl TypeError
               | Some p \<Rightarrow>
                   if location loc = ''tableau'' then
                     (if p < length (tableau s) then Inr (slotAt (tableau s ! p) i)
                      else Inl TypeError)
                   else if location loc = ''foundation'' then
                     (if p < length (foundations s) then Inr (slotAt (foundations s ! p) i)
                      else Inl TypeError)
                   else Inr None))"

text \<open>
  The loop of \<open>tryAutoMove\<close> over the tableau piles \<open>is\<close>: the first pile, other than
  the source pile, that accepts the card.
\<close>

fun autoTableau :: "state \<Rightarrow> descriptor \<Rightarrow> card \<Rightarrow> nat list \<Rightarrow> error + nat option" where
  "autoTableau s loc c [] = Inr None"
| "autoTableau s loc c (i # is) =
     (if location loc = ''tableau'' \<and> pileIndex loc = Some i then autoTableau s loc c is
      else (case canPlaceOnTableau s c i of
              Inl e \<Rightarrow> Inl e
            | Inr True \<Rightarrow> Inr (Some i)
            | Inr False \<Rightarrow> autoTableau s loc c is))"

definition autoToTableau ::
  "settings \<Rightarrow> state \<Rightarrow> descriptor \<Rightarrow> card \<Rightarrow> error + (descriptor option \<times> state)" where
  "autoToTableau cfg s loc c =
     (case autoTableau s loc c [0..<7] of
        Inl e \<Rightarrow> Inl e
      | Inr None \<Rightarrow> Inr (None, s)
      | Inr (Some i) \<Rightarrow>
          let dest = \<lparr>location = ''tableau'', pileIndex = Some i, index = None\<rparr>
          in (case moveCards cfg loc dest s of
                Inl e \<Rightarrow> Inl e
              | Inr (b, s') \<Rightarrow> Inr (Some dest, s')))"

text \<open>
  \<open>tryAutoMove\<close>. The location comes from \<open>findCard\<close>, which compared the \<open>id\<close> of the
  element there, so the element is a card and the branch for \<open>undefined\<close> is never
  taken. The card tested is the one found; \<open>moveCards\<close> then takes the top of a waste
  or foundation source.
\<close>

definition tryAutoMove ::
  "settings \<Rightarrow> suit \<times> int \<Rightarrow> state \<Rightarrow> error + (descriptor option \<times> state)" where
  "tryAutoMove cfg cardId s =
     (case findCard s cardId of
        Inl e \<Rightarrow> Inl e
      | Inr None \<Rightarrow> Inr (None, s)
      | Inr (Some loc) \<Rightarrow>
          (case cardAt s loc of
             Inl e \<Rightarrow> Inl e
           | Inr None \<Rightarrow> Inl TypeError
           | Inr (Some c) \<Rightarrow>
               if location loc = ''tableau'' \<and> \<not> faceUp c then Inr (None, s)
               else
                 let isSingleCard =
                       (location loc = ''waste'' \<or>
                        (location loc = ''tableau'' \<and>
                         (case (pileIndex loc, index loc) of
                            (Some p, Some i) \<Rightarrow> int i = int (length (tableau s ! p)) - 1
                          | _ \<Rightarrow> False)))
                 in if location loc \<noteq> ''foundation'' \<and> isSingleCard then
                      (let foundationIndex = getFoundationIndex (suit c)
                       in (case canPlaceOnFoundation s c foundationIndex of
                             Inl e \<Rightarrow> Inl e
                           | Inr True \<Rightarrow>
                               let dest = \<lparr>location = ''foundation'',
                                           pileIndex = Some foundationIndex, index = None\<rparr>
                               in (case moveCards cfg loc dest s of
                                     Inl e \<Rightarrow> Inl e
                                   | Inr (b, s') \<Rightarrow> Inr (Some dest, s'))
                           | Inr False \<Rightarrow> autoToTableau cfg s loc c))
                    else autoToTableau cfg s loc c))"

subsection \<open>Hints\<close>

text \<open>
  The source of a hint is a descriptor with the card's id; \<open>exposesCard\<close> and
  \<open>action\<close> are present in some hints only.
\<close>

record hintFrom = descriptor +
  cardId :: "(suit \<times> int) option"

record hint =
  hint_from :: hintFrom
  hint_to :: descriptor
  exposesCard :: "bool option"
  action :: "string option"

text \<open>The loop over the tableau piles \<open>is\<close> that looks for a top card to put on its foundation.\<close>

fun hintFoundation :: "state \<Rightarrow> nat list \<Rightarrow> error + hint option" where
  "hintFoundation s [] = Inr None"
| "hintFoundation s (i # is) =
     (if \<not> i < length (tableau s) then Inl TypeError
      else
        let pile = tableau s ! i
        in if length pile = 0 then hintFoundation s is
           else (case last pile of
                   None \<Rightarrow> Inl TypeError
                 | Some topCard \<Rightarrow>
                     if \<not> faceUp topCard then hintFoundation s is
                     else
                       let fi = getFoundationIndex (suit topCard)
                       in (case canPlaceOnFoundation s topCard fi of
                             Inl e \<Rightarrow> Inl e
                           | Inr True \<Rightarrow>
                               Inr (Some
                                 \<lparr>hint_from = \<lparr>location = ''tableau'', pileIndex = Some i,
                                                index = None, cardId = Some (id_card topCard)\<rparr>,
                                  hint_to = \<lparr>location = ''foundation'', pileIndex = Some fi,
                                              index = None\<rparr>,
                                  exposesCard = None, action = None\<rparr>)
                           | Inr False \<Rightarrow> hintFoundation s is)))"

text \<open>The loop over the tableau piles \<open>is\<close> that looks for a place for the waste card.\<close>

fun hintWasteTableau :: "state \<Rightarrow> card \<Rightarrow> nat list \<Rightarrow> error + hint option" where
  "hintWasteTableau s wasteCard [] = Inr None"
| "hintWasteTableau s wasteCard (i # is) =
     (case canPlaceOnTableau s wasteCard i of
        Inl e \<Rightarrow> Inl e
      | Inr True \<Rightarrow>
          Inr (Some
            \<lparr>hint_from = \<lparr>location = ''waste'', pileIndex = None, index = None,
                           cardId = Some (id_card wasteCard)\<rparr>,
             hint_to = \<lparr>location = ''tableau'', pileIndex = Some i, index = None\<rparr>,
             exposesCard = None, action = None\<rparr>)
      | Inr False \<Rightarrow> hintWasteTableau s wasteCard is)"

text \<open>
  The innermost loop of the third priority, over the destination piles \<open>ks\<close>, for the
  card \<open>c\<close> at index \<open>j\<close> of pile \<open>i\<close>.
\<close>

fun hintDest :: "state \<Rightarrow> card \<Rightarrow> nat \<Rightarrow> nat \<Rightarrow> nat list \<Rightarrow> error + nat option" where
  "hintDest s c i j [] = Inr None"
| "hintDest s c i j (k # ks) =
     (if k = i then hintDest s c i j ks
      else (case canPlaceOnTableau s c k of
              Inl e \<Rightarrow> Inl e
            | Inr True \<Rightarrow>
                if rank c = 13 \<and> j = 0 \<and> length (tableau s ! k) = 0
                then hintDest s c i j ks
                else Inr (Some k)
            | Inr False \<Rightarrow> hintDest s c i j ks))"

text \<open>The loop over the indices \<open>js\<close> of the cards of pile \<open>i\<close>.\<close>

fun hintCards :: "state \<Rightarrow> nat \<Rightarrow> pile \<Rightarrow> nat list \<Rightarrow> error + hint option" where
  "hintCards s i pile [] = Inr None"
| "hintCards s i pile (j # js) =
     (case slotAt pile j of
        None \<Rightarrow> Inl TypeError
      | Some c \<Rightarrow>
          if \<not> faceUp c then hintCards s i pile js
          else
            (case (if j > 0
                   then (case slotAt pile (j - 1) of
                           None \<Rightarrow> Inl TypeError
                         | Some below \<Rightarrow> Inr (\<not> faceUp below))
                   else Inr False) of
               Inl e \<Rightarrow> Inl e
             | Inr wouldExpose \<Rightarrow>
                 (case hintDest s c i j [0..<7] of
                    Inl e \<Rightarrow> Inl e
                  | Inr (Some k) \<Rightarrow>
                      Inr (Some
                        \<lparr>hint_from = \<lparr>location = ''tableau'', pileIndex = Some i,
                                       index = Some j, cardId = Some (id_card c)\<rparr>,
                         hint_to = \<lparr>location = ''tableau'', pileIndex = Some k, index = None\<rparr>,
                         exposesCard = Some wouldExpose, action = None\<rparr>)
                  | Inr None \<Rightarrow> hintCards s i pile js)))"

text \<open>The outer loop of the third priority, over the source piles \<open>is\<close>.\<close>

fun hintTableau :: "state \<Rightarrow> nat list \<Rightarrow> error + hint option" where
  "hintTableau s [] = Inr None"
| "hintTableau s (i # is) =
     (if \<not> i < length (tableau s) then Inl TypeError
      else
        let pile = tableau s ! i
        in (case hintCards s i pile [0..<length pile] of
              Inl e \<Rightarrow> Inl e
            | Inr (Some h) \<Rightarrow> Inr (Some h)
            | Inr None \<Rightarrow> hintTableau s is))"

text \<open>Priorities 4 and 5: draw, or reset the stock.\<close>

definition hintDraw :: "state \<Rightarrow> hint option" where
  "hintDraw s =
     (if length (stock s) > 0 then
        Some \<lparr>hint_from = \<lparr>location = ''stock'', pileIndex = None, index = None, cardId = None\<rparr>,
              hint_to = \<lparr>location = ''waste'', pileIndex = None, index = None\<rparr>,
              exposesCard = None, action = Some ''draw''\<rparr>
      else if length (waste s) > 0 then
        Some \<lparr>hint_from = \<lparr>location = ''waste'', pileIndex = None, index = None, cardId = None\<rparr>,
              hint_to = \<lparr>location = ''stock'', pileIndex = None, index = None\<rparr>,
              exposesCard = None, action = Some ''reset''\<rparr>
      else None)"

text \<open>Priorities 2 to 5, entered when the waste card gave no foundation hint.\<close>

definition hintRest :: "state \<Rightarrow> card option \<Rightarrow> error + hint option" where
  "hintRest s wasteCard =
     (case hintFoundation s [0..<7] of
        Inl e \<Rightarrow> Inl e
      | Inr (Some h) \<Rightarrow> Inr (Some h)
      | Inr None \<Rightarrow>
          (case (case wasteCard of
                   None \<Rightarrow> Inr None
                 | Some wc \<Rightarrow> hintWasteTableau s wc [0..<7]) of
             Inl e \<Rightarrow> Inl e
           | Inr (Some h) \<Rightarrow> Inr (Some h)
           | Inr None \<Rightarrow>
               (case hintTableau s [0..<7] of
                  Inl e \<Rightarrow> Inl e
                | Inr (Some h) \<Rightarrow> Inr (Some h)
                | Inr None \<Rightarrow> Inr (hintDraw s))))"

definition getHint :: "state \<Rightarrow> error + hint option" where
  "getHint s =
     (let wasteCard = getTopWasteCard s
      in (case wasteCard of
            None \<Rightarrow> hintRest s wasteCard
          | Some wc \<Rightarrow>
              let fi = getFoundationIndex (suit wc)
              in (case canPlaceOnFoundation s wc fi of
                    Inl e \<Rightarrow> Inl e
                  | Inr True \<Rightarrow>
                      Inr (Some
                        \<lparr>hint_from = \<lparr>location = ''waste'', pileIndex = None, index = None,
                                       cardId = Some (id_card wc)\<rparr>,
                         hint_to = \<lparr>location = ''foundation'', pileIndex = Some fi,
                                     index = None\<rparr>,
                         exposesCard = None, action = None\<rparr>)
                  | Inr False \<Rightarrow> hintRest s wasteCard)))"

subsection \<open>Double-precision arithmetic\<close>

text \<open>
  JavaScript numbers are IEEE 754 doubles. A double is modelled by the rational it
  denotes, and each arithmetic operation by the exact result rounded to the nearest
  number with a 53-bit significand, ties to the even significand. The exponent range is
  not modelled: the magnitudes in the generator stay between \<open>2^-31\<close> and \<open>2^62\<close>.
\<close>

definition pow2 :: "int \<Rightarrow> rat" where
  "pow2 e = (if 0 \<le> e then 2 ^ nat e else 1 / 2 ^ nat (- e))"

text \<open>The number of binary digits of a positive integer.\<close>

function bits :: "int \<Rightarrow> int" where
  "bits n = (if n \<le> 0 then 0 else 1 + bits (n div 2))"
  by pat_completeness auto
termination
  by (relation "measure nat") auto

declare bits.simps [simp del]

text \<open>The binary exponent \<open>e\<close> of a positive rational \<open>q\<close>: \<open>2^e \<le> q < 2^(e+1)\<close>.\<close>

definition expo :: "rat \<Rightarrow> int" where
  "expo q =
     (let (a, b) = quotient_of q;
          e0 = bits a - bits b
      in if pow2 e0 \<le> q then e0 else e0 - 1)"

text \<open>Rounding to the nearest integer, ties to even.\<close>

definition rne :: "rat \<Rightarrow> int" where
  "rne x =
     (let f = \<lfloor>x\<rfloor>; d = x - of_int f
      in if d < 1 / 2 then f
         else if 1 / 2 < d then f + 1
         else if even f then f else f + 1)"

definition fl :: "rat \<Rightarrow> rat" where
  "fl q =
     (if q = 0 then 0
      else
        let u = pow2 (expo \<bar>q\<bar> - 52)
        in sgn q * of_int (rne (\<bar>q\<bar> / u)) * u)"

text \<open>
  The same rounding stated on integers, without \<open>fl\<close>: an integer of magnitude below
  \<open>2^53\<close> is a double; a larger one keeps its 53 leading binary digits, the rest
  rounded to nearest, ties to the even significand. It describes \<open>*\<close> and \<open>+\<close> of
  \<open>next\<close> on integer operands and is compared with \<open>fl\<close> below.
\<close>

definition round53 :: "int \<Rightarrow> int" where
  "round53 n =
     (if \<bar>n\<bar> < 2 ^ 53 then n
      else
        let e = nat (bits \<bar>n\<bar> - 53);
            q = \<bar>n\<bar> div 2 ^ e;
            r = \<bar>n\<bar> mod 2 ^ e
        in sgn n * (2 ^ e * (if 2 * r < 2 ^ e \<or> (2 * r = 2 ^ e \<and> even q) then q else q + 1)))"

subsection \<open>The seeded generator\<close>

text \<open>
  \<open>next\<close>: the new seed is \<open>(seed * 1103515245 + 12345) & 0x7fffffff\<close>, the product
  and the sum computed in doubles; \<open>&\<close> truncates its operand to an integer and keeps
  the low 31 bits of its two's complement. The value returned is the new seed divided
  by \<open>0x7fffffff\<close>. The function returns the value and the new seed.
\<close>

definition truncate :: "rat \<Rightarrow> int" where
  "truncate x = (if 0 \<le> x then \<lfloor>x\<rfloor> else - \<lfloor>- x\<rfloor>)"

definition next_rand :: "int \<Rightarrow> rat \<times> int" where
  "next_rand sd =
     (let sd' = truncate (fl (fl (of_int sd * 1103515245) + 12345)) mod 2147483648
      in (fl (of_int sd' / 2147483647), sd'))"

definition nextInt :: "int \<Rightarrow> int \<Rightarrow> int \<times> int" where
  "nextInt mx sd = (let (r, sd') = next_rand sd in (\<lfloor>fl (r * of_int mx)\<rfloor>, sd'))"

definition WINNABLE_SEEDS :: "int list" where
  "WINNABLE_SEEDS =
    [11982, 15196, 17392, 25147, 27384, 31465, 39472, 41253, 44891, 48627,
     52983, 56128, 59374, 61847, 64291, 68453, 71629, 74815, 78362, 81947,
     85213, 88476, 91738, 94152, 97483, 101294, 104827, 108361, 111945, 115283,
     118627, 122184, 125739, 129461, 132847, 136294, 139728, 143162, 146895, 150324,
     153867, 157291, 160834, 164278, 167912, 171356, 174893, 178427, 181964, 185392,
     188736, 192184, 195627, 199183, 202647, 206194, 209738, 213275, 216819, 220364,
     223918, 227453, 230987, 234621, 238156, 241793, 245328, 248962, 252497, 256134,
     259678, 263215, 266849, 270384, 273928, 277463, 281097, 284632, 288276, 291813,
     295348, 298984, 302519, 306153, 309688, 313324, 316859, 320493, 324028, 327664,
     331199, 334835, 338370, 342006, 345541, 349177, 352712, 356348, 359883, 363519,
     367054, 370690, 374225, 377861, 381396, 385032, 388567, 392203, 395738, 399374,
     402909, 406545, 410080, 413716, 417251, 420887, 424422, 428058, 431593, 435229,
     438764, 442400, 445935, 449571, 453106, 456742, 460277, 463913, 467448, 471084,
     474619, 478255, 481790, 485426, 488961, 492597, 496132, 499768, 503303, 506939,
     510474, 514110, 517645, 521281, 524816, 528452, 531987, 535623, 539158, 542794,
     546329, 549965, 553500, 557136, 560671, 564307, 567842, 571478, 575013, 578649,
     582184, 585820, 589355, 592991, 596526, 600162, 603697, 607333, 610868, 614504,
     618039, 621675, 625210, 628846, 632381, 636017, 639552, 643188, 646723, 650359,
     653894, 657530, 661065, 664701, 668236, 671872, 675407, 679043, 682578, 686214,
     689749, 693385, 696920, 700556, 704091, 707727, 711262, 714898, 718433, 722069]"

subsection \<open>Deck, shuffle and deal\<close>

definition createDeck :: "pile" where
  "createDeck = concat (map (\<lambda>su. map (\<lambda>r. Some (createCard su r)) [1..13]) SUITS)"

text \<open>
  The destructuring swap of the elements at \<open>i\<close> and \<open>j\<close>, for \<open>i\<close> inside the array.
  Both are read first. An index \<open>j\<close> past the end reads \<open>undefined\<close> and the write
  there extends the array; a negative \<open>j\<close> is no array index, so only the element at
  \<open>i\<close> changes.
\<close>

definition swap :: "pile \<Rightarrow> nat \<Rightarrow> int \<Rightarrow> pile" where
  "swap xs i j =
     (if j < 0 then xs[i := None]
      else if nat j < length xs then xs[i := xs ! nat j, nat j := xs ! i]
      else xs[i := None] @ replicate (nat j - length xs) None @ [xs ! i])"

text \<open>The loop of \<open>shuffle\<close>, for \<open>i\<close> from the argument down to 1.\<close>

fun shuffleLoop :: "nat \<Rightarrow> pile \<Rightarrow> int \<Rightarrow> pile \<times> int" where
  "shuffleLoop 0 shuffled sd = (shuffled, sd)"
| "shuffleLoop (Suc n) shuffled sd =
     (let (j, sd') = nextInt (int (Suc n) + 1) sd
      in shuffleLoop n (swap shuffled (Suc n) j) sd')"

text \<open>\<open>shuffle\<close> returns the shuffled copy; the generator's seed is returned with it.\<close>

definition shuffle :: "pile \<Rightarrow> int \<Rightarrow> pile \<times> int" where
  "shuffle deck sd = shuffleLoop (length deck - 1) deck sd"

text \<open>
  The deal: the rows \<open>rows\<close> of column \<open>col\<close>, from the card at \<open>cardIndex\<close> on; then
  the columns.
\<close>

fun dealRows :: "pile \<Rightarrow> nat \<Rightarrow> nat \<Rightarrow> nat list \<Rightarrow> error + pile" where
  "dealRows deck cardIndex col [] = Inr []"
| "dealRows deck cardIndex col (row # rows) =
     (case slotAt deck cardIndex of
        None \<Rightarrow> Inl TypeError
      | Some c \<Rightarrow>
          (case dealRows deck (Suc cardIndex) col rows of
             Inl e \<Rightarrow> Inl e
           | Inr p \<Rightarrow> Inr (Some (c\<lparr>faceUp := (row = col)\<rparr>) # p)))"

fun dealCols :: "pile \<Rightarrow> nat \<Rightarrow> nat list \<Rightarrow> error + (pile list \<times> nat)" where
  "dealCols deck cardIndex [] = Inr ([], cardIndex)"
| "dealCols deck cardIndex (col # cols) =
     (case dealRows deck cardIndex col [0..<Suc col] of
        Inl e \<Rightarrow> Inl e
      | Inr p \<Rightarrow>
          (case dealCols deck (cardIndex + Suc col) cols of
             Inl e \<Rightarrow> Inl e
           | Inr (ps, cardIndex') \<Rightarrow> Inr (p # ps, cardIndex')))"

text \<open>
  \<open>newGame\<close>. The argument \<open>r\<close> is the index \<open>Math.floor (Math.random () * 200)\<close>
  drawn by \<open>getRandomWinnableSeed\<close>, which is below 200 as \<open>Math.random ()\<close> is below
  1; \<open>now\<close> is \<open>Date.now ()\<close>.
\<close>

definition getRandomWinnableSeed :: "nat \<Rightarrow> int" where
  "getRandomWinnableSeed r = WINNABLE_SEEDS ! r"

definition newGame :: "nat \<Rightarrow> int \<Rightarrow> error + state" where
  "newGame r now =
     (let currentSeed = getRandomWinnableSeed r;
          deck = fst (shuffle createDeck currentSeed)
      in (case dealCols deck 0 [0..<7] of
            Inl e \<Rightarrow> Inl e
          | Inr (tab, cardIndex) \<Rightarrow>
              Inr \<lparr>stock = drop cardIndex deck, waste = [],
                   foundations = [[], [], [], []], tableau = tab,
                   moves = 0, score = 0,
                   history = [], startTime = now, seed = currentSeed\<rparr>))"

subsection \<open>Sequences of operations\<close>

text \<open>
  The commands of the engine, as the values a caller can issue, with the settings in
  force at the call. \<open>exec\<close> gives the success flag of a command: the boolean it
  returns, or for \<open>tryAutoMove\<close> whether a destination came back.
\<close>

datatype operation = Draw | Move descriptor descriptor | AutoMove "suit \<times> int" | Undo

fun exec :: "settings \<times> operation \<Rightarrow> state \<Rightarrow> error + (bool \<times> state)" where
  "exec (cfg, Draw) s = drawFromStock cfg s"
| "exec (cfg, Move fromLocation toLocation) s = moveCards cfg fromLocation toLocation s"
| "exec (cfg, AutoMove cid) s =
     (case tryAutoMove cfg cid s of
        Inl e \<Rightarrow> Inl e
      | Inr (d, s') \<Rightarrow> Inr (d \<noteq> None, s'))"
| "exec (cfg, Undo) s = Inr (undo s)"

fun execAll :: "(settings \<times> operation) list \<Rightarrow> state \<Rightarrow> error + state" where
  "execAll [] s = Inr s"
| "execAll (x # xs) s =
     (case exec x s of Inl e \<Rightarrow> Inl e | Inr (b, s') \<Rightarrow> execAll xs s')"

text \<open>
  A descriptor names a pile of the state: with the tag of a foundation or of a tableau
  pile, its \<open>pileIndex\<close> is the index of a pile that exists.
\<close>

definition namesPile :: "state \<Rightarrow> descriptor \<Rightarrow> bool" where
  "namesPile s d =
     ((location d = ''foundation'' \<longrightarrow>
         (case pileIndex d of None \<Rightarrow> False | Some i \<Rightarrow> i < length (foundations s))) \<and>
      (location d = ''tableau'' \<longrightarrow>
         (case pileIndex d of None \<Rightarrow> False | Some i \<Rightarrow> i < length (tableau s))))"

text \<open>Every element of every pile is a card object.\<close>

definition cardsOnly :: "state \<Rightarrow> bool" where
  "cardsOnly s =
     (None \<notin> set (stock s) \<and> None \<notin> set (waste s) \<and>
      (\<forall>p \<in> set (foundations s). None \<notin> set p) \<and>
      (\<forall>p \<in> set (tableau s). None \<notin> set p))"

subsection \<open>Successful sequences and their undoing\<close>

text \<open>
  A sequence of successful mutating operations: no undo among them, each returns
  normally with its success flag true.
\<close>

fun execOk :: "(settings \<times> operation) list \<Rightarrow> state \<Rightarrow> state option" where
  "execOk [] s = Some s"
| "execOk (x # xs) s =
     (if snd x = Undo then None
      else (case exec x s of
              Inr (True, s') \<Rightarrow> execOk xs s'
            | _ \<Rightarrow> None))"

fun undoN :: "nat \<Rightarrow> state \<Rightarrow> state" where
  "undoN 0 s = s"
| "undoN (Suc n) s = undoN n (snd (undo s))"

text \<open>The six pile and counter fields after the operations and as many undos.\<close>

definition roundTrip :: "(settings \<times> operation) list \<Rightarrow> state \<Rightarrow> snapshot option" where
  "roundTrip ops s =
     (case execOk ops s of
        None \<Rightarrow> None
      | Some s' \<Rightarrow> Some (snapshot.truncate (undoN (length ops) s')))"

subsection \<open>The tableau-to-tableau search, stated on lists\<close>

text \<open>The first value that a partial function yields along a list.\<close>

fun firstSome :: "('a \<Rightarrow> 'b option) \<Rightarrow> 'a list \<Rightarrow> 'b option" where
  "firstSome g [] = None"
| "firstSome g (x # xs) = (case g x of None \<Rightarrow> firstSome g xs | Some y \<Rightarrow> Some y)"

text \<open>
  The candidate moves of the tableau-to-tableau stage as triples: source pile \<open>i\<close>,
  index \<open>j\<close> of the card in it, destination pile \<open>k\<close>. Within a pile the cards are
  taken from the top (the last index) down, or by ascending index.
\<close>

definition hintCandidates :: "state \<Rightarrow> bool \<Rightarrow> (nat \<times> nat \<times> nat) list" where
  "hintCandidates s topFirst =
     concat (map (\<lambda>i.
       concat (map (\<lambda>j. map (\<lambda>k. (i, j, k)) [0..<7])
                 (if topFirst then rev [0..<length (tableau s ! i)]
                  else [0..<length (tableau s ! i)])))
       [0..<7])"

text \<open>A face-up card, and a destination other than its pile that accepts it.\<close>

definition movable :: "state \<Rightarrow> nat \<times> nat \<times> nat \<Rightarrow> bool" where
  "movable s = (\<lambda>(i, j, k).
     k \<noteq> i \<and>
     (case slotAt (tableau s ! i) j of
        None \<Rightarrow> False
      | Some c \<Rightarrow> faceUp c \<and> canPlaceOnTableau s c k = Inr True))"

text \<open>The skipped case in the claim's words: a lone King, from a single-card pile, to an empty pile.\<close>

definition skipLoneKing :: "state \<Rightarrow> nat \<times> nat \<times> nat \<Rightarrow> bool" where
  "skipLoneKing s = (\<lambda>(i, j, k).
     (case slotAt (tableau s ! i) j of
        None \<Rightarrow> False
      | Some c \<Rightarrow> rank c = 13 \<and> length (tableau s ! i) = 1 \<and> tableau s ! k = []))"

text \<open>The skipped case of the code: a King at index 0 of its pile, to an empty pile.\<close>

definition skipBaseKing :: "state \<Rightarrow> nat \<times> nat \<times> nat \<Rightarrow> bool" where
  "skipBaseKing s = (\<lambda>(i, j, k).
     (case slotAt (tableau s ! i) j of
        None \<Rightarrow> False
      | Some c \<Rightarrow> rank c = 13 \<and> j = 0 \<and> tableau s ! k = []))"

text \<open>The hint for a candidate.\<close>

definition tableauHint :: "state \<Rightarrow> nat \<times> nat \<times> nat \<Rightarrow> hint option" where
  "tableauHint s = (\<lambda>(i, j, k).
     (case slotAt (tableau s ! i) j of
        None \<Rightarrow> None
      | Some c \<Rightarrow>
          Some \<lparr>hint_from = \<lparr>location = ''tableau'', pileIndex = Some i, index = Some j,
                               cardId = Some (id_card c)\<rparr>,
                 hint_to = \<lparr>location = ''tableau'', pileIndex = Some k, index = None\<rparr>,
                 exposesCard =
                   Some (j > 0 \<and> (case slotAt (tableau s ! i) (j - 1) of
                                     None \<Rightarrow> False
                                   | Some below \<Rightarrow> \<not> faceUp below)),
                 action = None\<rparr>))"

definition hintTableauClaimed :: "state \<Rightarrow> hint option" where
  "hintTableauClaimed s =
     Option.bind (find (\<lambda>t. movable s t \<and> \<not> skipLoneKing s t) (hintCandidates s True))
       (tableauHint s)"

definition hintTableauAmended :: "state \<Rightarrow> hint option" where
  "hintTableauAmended s =
     Option.bind (find (\<lambda>t. movable s t \<and> \<not> skipBaseKing s t) (hintCandidates s False))
       (tableauHint s)"

definition noEarlierHint :: "state \<Rightarrow> bool" where
  "noEarlierHint s =
     (hintFoundation s [0..<7] = Inr None \<and>
      (case getTopWasteCard s of
         None \<Rightarrow> True
       | Some wc \<Rightarrow>
           canPlaceOnFoundation s wc (getFoundationIndex (suit wc)) = Inr False \<and>
           hintWasteTableau s wc [0..<7] = Inr None))"

text \<open>The seven tableau piles exist and hold cards only.\<close>

definition tableauCards :: "state \<Rightarrow> bool" where
  "tableauCards s = (length (tableau s) = 7 \<and> (\<forall>p \<in> set (tableau s). None \<notin> set p))"

text \<open>The candidate filter of the code, as a partial function on triples.\<close>

definition codedMove :: "state \<Rightarrow> nat \<times> nat \<times> nat \<Rightarrow> hint option" where
  "codedMove s t = (if movable s t \<and> \<not> skipBaseKing s t then tableauHint s t else None)"

subsection \<open>The partition of the deck over the piles\<close>

text \<open>The 52 pairs of a suit and a rank, in the order of \<open>createDeck\<close>.\<close>

definition fullDeck :: "(suit \<times> int) list" where
  "fullDeck = concat (map (\<lambda>su. map (\<lambda>r. (su, r)) [1..13]) SUITS)"

definition cardKey :: "card \<Rightarrow> suit \<times> int" where
  "cardKey c = (suit c, rank c)"

text \<open>All elements of all piles, of a state or of a snapshot.\<close>

definition allSlots :: "'a snapshot_scheme \<Rightarrow> pile" where
  "allSlots s = stock s @ waste s @ concat (foundations s) @ concat (tableau s)"

text \<open>
  Four foundations, seven tableau piles, and across all piles each of the 52 cards
  once and nothing else.
\<close>

definition partitioned :: "'a snapshot_scheme \<Rightarrow> bool" where
  "partitioned s =
     (length (foundations s) = 4 \<and> length (tableau s) = 7 \<and>
      mset (map (map_option cardKey) (allSlots s)) = mset (map Some fullDeck))"

text \<open>
  The arguments of a validated call of \<open>moveCards\<close>: the source names the waste, a
  foundation or a tableau pile that exists, with a card to pop in the first two cases;
  the destination names a foundation or a tableau pile that exists. The calls that the
  drag handler and \<open>tryAutoMove\<close> make after \<open>canPlaceOnFoundation\<close> or
  \<open>canPlaceOnTableau\<close> said yes are of this kind.
\<close>

definition validSource :: "state \<Rightarrow> descriptor \<Rightarrow> bool" where
  "validSource s d =
     (if location d = ''waste'' then waste s \<noteq> []
      else if location d = ''foundation'' then
        (case pileIndex d of
           None \<Rightarrow> False
         | Some i \<Rightarrow> i < length (foundations s) \<and> foundations s ! i \<noteq> [])
      else location d = ''tableau'' \<and>
        (case pileIndex d of None \<Rightarrow> False | Some i \<Rightarrow> i < length (tableau s)))"

definition validDest :: "state \<Rightarrow> descriptor \<Rightarrow> bool" where
  "validDest s d =
     (if location d = ''foundation'' then
        (case pileIndex d of None \<Rightarrow> False | Some i \<Rightarrow> i < length (foundations s))
      else location d = ''tableau'' \<and>
        (case pileIndex d of None \<Rightarrow> False | Some i \<Rightarrow> i < length (tableau s)))"

text \<open>
  The states of a game: dealt by \<open>newGame\<close> (with an index into the seed list), then
  changed by draws, validated moves, auto-moves and undos that return.
\<close>

inductive reachable :: "state \<Rightarrow> bool" where
  start: "r < length WINNABLE_SEEDS \<Longrightarrow> newGame r now = Inr s \<Longrightarrow> reachable s"
| draw: "reachable s \<Longrightarrow> drawFromStock cfg s = Inr (b, s') \<Longrightarrow> reachable s'"
| move: "reachable s \<Longrightarrow> validSource s fromLocation \<Longrightarrow> validDest s toLocation \<Longrightarrow>
         moveCards cfg fromLocation toLocation s = Inr (b, s') \<Longrightarrow> reachable s'"
| auto: "reachable s \<Longrightarrow> tryAutoMove cfg cid s = Inr (d, s') \<Longrightarrow> reachable s'"
| undo: "reachable s \<Longrightarrow> undo s = (b, s') \<Longrightarrow> reachable s'"

text \<open>The cards of a pile as a multiset of keys.\<close>

definition pileKeys :: "pile \<Rightarrow> (suit \<times> int) option multiset" where
  "pileKeys p = mset (map (map_option cardKey) p)"

definition allKeys :: "'a snapshot_scheme \<Rightarrow> (suit \<times> int) option multiset" where
  "allKeys s = pileKeys (stock s) + pileKeys (waste s) + (\<Sum>p\<leftarrow>foundations s. pileKeys p) +
               (\<Sum>p\<leftarrow>tableau s. pileKeys p)"

text \<open>The invariant: the state and every snapshot of its history are partitioned.\<close>

definition gameInv :: "state \<Rightarrow> bool" where
  "gameInv s = (partitioned s \<and> (\<forall>h \<in> set (history s). partitioned h))"

subsection \<open>Example states\<close>

definition faceUpCard :: "suit \<Rightarrow> int \<Rightarrow> card" where
  "faceUpCard su r = (createCard su r)\<lparr>faceUp := True\<rparr>"

definition emptyState :: state where
  "emptyState =
     \<lparr>stock = [], waste = [], foundations = [[], [], [], []],
      tableau = [[], [], [], [], [], [], []], moves = 0, score = 0,
      history = [], startTime = 0, seed = 0\<rparr>"

definition standardOne :: settings where
  "standardOne = \<lparr>drawCount = 1, scoring = ''standard''\<rparr>"

definition vegasOne :: settings where
  "vegasOne = \<lparr>drawCount = 1, scoring = ''vegas''\<rparr>"

text \<open>The ace of spades alone on the waste.\<close>

definition wasteOne :: state where
  "wasteOne = emptyState\<lparr>waste := [Some (faceUpCard spades 1)]\<rparr>"

text \<open>The ace of hearts on its foundation, the five of spades on the first tableau pile.\<close>

definition rulesExample :: state where
  "rulesExample =
     emptyState\<lparr>foundations := [[Some (faceUpCard hearts 1)], [], [], []],
                tableau := [[Some (faceUpCard spades 5)], [], [], [], [], [], []]\<rparr>"

text \<open>
  The two of hearts on the waste and the ace of hearts on its foundation; on the tableau
  the two could also go on the three of clubs, and the four of hearts on the five of
  spades.
\<close>

definition hintExample :: state where
  "hintExample =
     emptyState\<lparr>waste := [Some (faceUpCard hearts 2)],
                foundations := [[Some (faceUpCard hearts 1)], [], [], []],
                tableau := [[Some (faceUpCard spades 5)], [Some (faceUpCard hearts 4)],
                            [Some (faceUpCard clubs 3)], [], [], [], []]\<rparr>"

text \<open>One face-down card in the stock, nothing else.\<close>

definition oneInStock :: state where
  "oneInStock = emptyState\<lparr>stock := [Some (createCard hearts 1)]\<rparr>"

text \<open>The ace of hearts in the stock, the ace of spades on the waste.\<close>

definition undoExample :: state where
  "undoExample =
     emptyState\<lparr>stock := [Some (createCard hearts 1)],
                waste := [Some (faceUpCard spades 1)]\<rparr>"

definition threeMoves :: "(settings \<times> operation) list" where
  "threeMoves =
     [(standardOne, Move \<lparr>location = ''waste'', pileIndex = None, index = None\<rparr>
                         \<lparr>location = ''foundation'', pileIndex = Some 3, index = None\<rparr>),
      (vegasOne, Draw),
      (standardOne, AutoMove (hearts, 1))]"

text \<open>
  Eight of hearts under seven of spades, both face up, on the first pile; nine of
  spades and eight of diamonds on the next two.
\<close>

definition scanExample :: state where
  "scanExample =
     emptyState\<lparr>tableau := [[Some (faceUpCard hearts 8), Some (faceUpCard spades 7)],
                            [Some (faceUpCard spades 9)], [Some (faceUpCard diamonds 8)],
                            [], [], [], []]\<rparr>"

text \<open>King of spades under queen of hearts on the first pile, the other piles empty.\<close>

definition kingExample :: state where
  "kingExample =
     emptyState\<lparr>stock := [Some (createCard clubs 2)],
                tableau := [[Some (faceUpCard spades 13), Some (faceUpCard hearts 12)],
                            [], [], [], [], [], []]\<rparr>"

section \<open>Properties\<close>

subsection \<open>Frame lemmas\<close>

lemma saveState_fields [simp]:
  "stock (saveState s) = stock s" "waste (saveState s) = waste s"
  "foundations (saveState s) = foundations s" "tableau (saveState s) = tableau s"
  "moves (saveState s) = moves s" "score (saveState s) = score s"
  "startTime (saveState s) = startTime s" "seed (saveState s) = seed s"
  by (simp_all add: saveState_def Let_def)

lemma undo_frame: "undo s = (b, s') \<Longrightarrow> startTime s' = startTime s \<and> seed s' = seed s"
  by (auto simp: undo_def Let_def split: if_splits)

lemma drawFromStock_frame:
  "drawFromStock cfg s = Inr (b, s') \<Longrightarrow>
     startTime s' = startTime s \<and> seed s' = seed s \<and>
     history s' = (if b then history (saveState s) else history s)"
  by (auto simp: drawFromStock_def Let_def split: if_splits sum.splits prod.splits)

lemma removeFromSource_frame:
  "removeFromSource d s = Inr (cards, flipped, s1) \<Longrightarrow>
     startTime s1 = startTime s \<and> seed s1 = seed s \<and> history s1 = history s \<and>
     moves s1 = moves s \<and> score s1 = score s"
  by (auto simp: removeFromSource_def Let_def split: if_splits option.splits prod.splits)

lemma addToDestination_frame:
  "addToDestination cfg d cards flipped s = Inr s1 \<Longrightarrow>
     startTime s1 = startTime s \<and> seed s1 = seed s \<and> history s1 = history s \<and>
     moves s1 = moves s"
  by (auto simp: addToDestination_def Let_def split: if_splits option.splits)

lemma moveCards_frame:
  assumes "moveCards cfg f t s = Inr (b, s')"
  shows "b \<and> startTime s' = startTime s \<and> seed s' = seed s \<and>
         history s' = history (saveState s) \<and> moves s' = moves s + 1"
proof -
  from assms obtain cards flipped s1 s2 where
    r: "removeFromSource f (saveState s) = Inr (cards, flipped, s1)" and
    a: "addToDestination cfg t cards flipped s1 = Inr s2" and
    e: "b = True" "s' = s2\<lparr>moves := moves s2 + 1\<rparr>"
    by (auto simp: moveCards_def split: sum.splits prod.splits)
  from removeFromSource_frame[OF r] addToDestination_frame[OF a] e
  show ?thesis by simp
qed

lemma autoToTableau_frame:
  assumes "autoToTableau cfg s loc c = Inr (d, s')"
  shows "startTime s' = startTime s \<and> seed s' = seed s \<and>
         history s' = (if d = None then history s else history (saveState s)) \<and>
         (d = None \<longrightarrow> s' = s)"
  using assms
  by (auto simp: autoToTableau_def Let_def split: sum.splits option.splits prod.splits
      dest!: moveCards_frame)

lemma tryAutoMove_frame:
  assumes "tryAutoMove cfg cid s = Inr (d, s')"
  shows "startTime s' = startTime s \<and> seed s' = seed s \<and>
         history s' = (if d = None then history s else history (saveState s)) \<and>
         (d = None \<longrightarrow> s' = s)"
  using assms
  by (auto simp: tryAutoMove_def Let_def
      split: sum.splits option.splits prod.splits if_splits bool.splits
      dest!: moveCards_frame autoToTableau_frame)

lemma exec_frame:
  assumes "exec x s = Inr (b, s')"
  shows "startTime s' = startTime s \<and> seed s' = seed s"
proof -
  obtain cfg op where x: "x = (cfg, op)" by (cases x)
  show ?thesis
  proof (cases op)
    case Draw
    with assms x show ?thesis by (auto dest: drawFromStock_frame)
  next
    case (Move f t)
    with assms x show ?thesis by (auto dest: moveCards_frame)
  next
    case (AutoMove cid)
    with assms x show ?thesis
      by (auto split: sum.splits prod.splits dest: tryAutoMove_frame)
  next
    case Undo
    with assms x show ?thesis by (auto dest: undo_frame)
  qed
qed

subsection \<open>The placement rules (C3)\<close>

text \<open>
  C3. \<open>canPlaceOnFoundation\<close> answers false when the card's suit is not the suit of
  the foundation; on an empty foundation of its suit it answers true exactly for rank 1,
  and on a non-empty one exactly when the rank is one more than the top card's.
  \<open>canPlaceOnTableau\<close> answers true on an empty pile exactly for rank 13, and on a
  non-empty pile exactly when the top card is face up, of the opposite colour, and the
  rank is one less than the top card's. Two cards are of opposite colours when exactly
  one of them is a heart or a diamond.
\<close>

theorem canPlace_rules:
  "(i < length SUITS \<longrightarrow> suit c \<noteq> SUITS ! i \<longrightarrow> canPlaceOnFoundation s c i = Inr False) \<and>
   (i < length SUITS \<and> i < length (foundations s) \<and> suit c = SUITS ! i \<and>
    foundations s ! i = []
      \<longrightarrow> canPlaceOnFoundation s c i = Inr (rank c = 1)) \<and>
   (i < length SUITS \<and> i < length (foundations s) \<and> suit c = SUITS ! i \<and>
    foundations s ! i \<noteq> [] \<and> last (foundations s ! i) = Some topCard
      \<longrightarrow> canPlaceOnFoundation s c i = Inr (rank c = rank topCard + 1)) \<and>
   (j < length (tableau s) \<and> tableau s ! j = []
      \<longrightarrow> canPlaceOnTableau s c j = Inr (rank c = 13)) \<and>
   (j < length (tableau s) \<and> tableau s ! j \<noteq> [] \<and> last (tableau s ! j) = Some topCard'
      \<longrightarrow> canPlaceOnTableau s c j =
            Inr (faceUp topCard' \<and> areOppositeColors c topCard' \<and>
                 rank c = rank topCard' - 1)) \<and>
   (areOppositeColors c c' \<longleftrightarrow>
      (suit c \<in> {hearts, diamonds}) \<noteq> (suit c' \<in> {hearts, diamonds}))"
  by (simp add: canPlaceOnFoundation_def canPlaceOnTableau_def areOppositeColors_def
      isRed_def RED_SUITS_def)

theorem canPlace_rules_witness:
  "canPlaceOnFoundation rulesExample (faceUpCard spades 2) 0 = Inr False \<and>
   canPlaceOnFoundation rulesExample (faceUpCard diamonds 1) 1 = Inr True \<and>
   canPlaceOnFoundation rulesExample (faceUpCard hearts 2) 0 = Inr True \<and>
   canPlaceOnFoundation rulesExample (faceUpCard hearts 3) 0 = Inr False \<and>
   canPlaceOnTableau rulesExample (faceUpCard hearts 13) 1 = Inr True \<and>
   canPlaceOnTableau rulesExample (faceUpCard hearts 4) 0 = Inr True \<and>
   canPlaceOnTableau rulesExample (faceUpCard clubs 4) 0 = Inr False"
  using
    canPlace_rules[where i = 0 and c = "faceUpCard spades 2" and s = rulesExample]
    canPlace_rules[where i = 1 and c = "faceUpCard diamonds 1" and s = rulesExample]
    canPlace_rules[where i = 0 and c = "faceUpCard hearts 2" and s = rulesExample
      and topCard = "faceUpCard hearts 1"]
    canPlace_rules[where i = 0 and c = "faceUpCard hearts 3" and s = rulesExample
      and topCard = "faceUpCard hearts 1"]
    canPlace_rules[where j = 1 and c = "faceUpCard hearts 13" and s = rulesExample]
    canPlace_rules[where j = 0 and c = "faceUpCard hearts 4" and s = rulesExample
      and topCard' = "faceUpCard spades 5" and c' = "faceUpCard spades 5"]
    canPlace_rules[where j = 0 and c = "faceUpCard clubs 4" and s = rulesExample
      and topCard' = "faceUpCard spades 5" and c' = "faceUpCard spades 5"]
  by (simp add: rulesExample_def emptyState_def faceUpCard_def createCard_def SUITS_def)

subsection \<open>The reset of the stock (C4)\<close>

lemma flipDown_cards:
  "None \<notin> set xs \<Longrightarrow> flipDown xs = Inr (map (map_option (\<lambda>c. c\<lparr>faceUp := False\<rparr>)) xs)"
  by (induction xs rule: flipDown.induct) auto

text \<open>
  C4. With an empty stock and a non-empty waste of cards, \<open>drawFromStock\<close> returns
  true; the new stock is the reversed waste with every card face down, the waste is
  empty, and under Vegas scoring the score becomes \<open>max 0 (score - 100)\<close> (it is
  unchanged otherwise). Foundations, tableau and move count stay as they are.
\<close>

theorem draw_reset:
  assumes "stock s = []" and "waste s \<noteq> []" and "None \<notin> set (waste s)"
  shows "\<exists>s'. drawFromStock cfg s = Inr (True, s') \<and>
           stock s' = map (map_option (\<lambda>c. c\<lparr>faceUp := False\<rparr>)) (rev (waste s)) \<and>
           waste s' = [] \<and>
           score s' = (if scoring cfg = ''vegas'' then max 0 (score s - 100) else score s) \<and>
           foundations s' = foundations s \<and> tableau s' = tableau s \<and> moves s' = moves s"
  using assms by (simp add: drawFromStock_def saveState_def Let_def flipDown_cards)

text \<open>
  The scenario of the claim: stock empty, the ace of spades on the waste, Vegas score 50.
\<close>

theorem draw_reset_witness:
  "stock (wasteOne\<lparr>score := 50\<rparr>) = [] \<and> waste (wasteOne\<lparr>score := 50\<rparr>) \<noteq> [] \<and>
   None \<notin> set (waste (wasteOne\<lparr>score := 50\<rparr>)) \<and>
   (\<exists>s'. drawFromStock vegasOne (wasteOne\<lparr>score := 50\<rparr>) = Inr (True, s') \<and>
          stock s' = [Some (createCard spades 1)] \<and> waste s' = [] \<and> score s' = 0)"
  using draw_reset[of "wasteOne\<lparr>score := 50\<rparr>" vegasOne]
  by (auto simp: wasteOne_def emptyState_def vegasOne_def faceUpCard_def createCard_def)

subsection \<open>The first priority of the hint (C6)\<close>

text \<open>The index that \<open>getFoundationIndex\<close> gives is the one position of the suit in \<open>SUITS\<close>.\<close>

lemma getFoundationIndex_unique:
  assumes "k < length SUITS" and "SUITS ! k = su"
  shows "getFoundationIndex su = k"
proof -
  from assms(1) have "k = 0 \<or> k = 1 \<or> k = 2 \<or> k = 3" by (auto simp: SUITS_def)
  with assms(2) show ?thesis
    by (auto simp: getFoundationIndex_def SUITS_def)
qed

text \<open>
  C6. Let the top card of the waste be legally placeable on the foundation \<open>k\<close> of its
  suit (\<open>SUITS ! k\<close> is the suit of the card): the foundation is empty and the card is
  an ace, or the rank of the card is one more than that of the foundation's top card.
  Then \<open>canPlaceOnFoundation\<close> says so and \<open>getHint\<close> returns the move of that card
  from the waste to foundation \<open>k\<close>, whatever else the state offers.
\<close>

theorem hint_waste_foundation_first:
  assumes "waste s \<noteq> []" and "last (waste s) = Some wc"
    and "k < length SUITS" and "SUITS ! k = suit wc" and "k < length (foundations s)"
    and "if foundations s ! k = [] then rank wc = 1
         else \<exists>t. last (foundations s ! k) = Some t \<and> rank wc = rank t + 1"
  shows "canPlaceOnFoundation s wc k = Inr True \<and>
         getHint s =
           Inr (Some \<lparr>hint_from = \<lparr>location = ''waste'', pileIndex = None, index = None,
                                    cardId = Some (id_card wc)\<rparr>,
                      hint_to = \<lparr>location = ''foundation'', pileIndex = Some k, index = None\<rparr>,
                      exposesCard = None, action = None\<rparr>)"
proof -
  have fi: "getFoundationIndex (suit wc) = k"
    using assms(3,4) by (rule getFoundationIndex_unique)
  have ok: "canPlaceOnFoundation s wc k = Inr True"
  proof (cases "foundations s ! k = []")
    case True
    with assms(3,4,5,6) show ?thesis by (simp add: canPlaceOnFoundation_def)
  next
    case False
    with assms(6) obtain t where "last (foundations s ! k) = Some t" "rank wc = rank t + 1"
      by auto
    with False assms(3,4,5) show ?thesis by (simp add: canPlaceOnFoundation_def Let_def)
  qed
  with fi assms(1,2) show ?thesis
    by (simp add: getHint_def getTopWasteCard_def Let_def)
qed

text \<open>
  In \<open>hintExample\<close> the two of hearts could also go on the three of clubs and the four of
  hearts on the five of spades; the hint is the two of hearts to the foundation of the
  hearts.
\<close>

theorem hint_waste_foundation_first_witness:
  "waste hintExample \<noteq> [] \<and> last (waste hintExample) = Some (faceUpCard hearts 2) \<and>
   SUITS ! 0 = suit (faceUpCard hearts 2) \<and>
   foundations hintExample ! 0 \<noteq> [] \<and>
   last (foundations hintExample ! 0) = Some (faceUpCard hearts 1) \<and>
   rank (faceUpCard hearts 2) = rank (faceUpCard hearts 1) + 1 \<and>
   canPlaceOnTableau hintExample (faceUpCard hearts 2) 2 = Inr True \<and>
   canPlaceOnTableau hintExample (faceUpCard hearts 4) 0 = Inr True \<and>
   canPlaceOnFoundation hintExample (faceUpCard hearts 2) 0 = Inr True \<and>
   getHint hintExample =
     Inr (Some \<lparr>hint_from = \<lparr>location = ''waste'', pileIndex = None, index = None,
                              cardId = Some (hearts, 2)\<rparr>,
                hint_to = \<lparr>location = ''foundation'', pileIndex = Some 0, index = None\<rparr>,
                exposesCard = None, action = None\<rparr>)"
  using hint_waste_foundation_first[of hintExample "faceUpCard hearts 2" 0]
  by (simp add: hintExample_def emptyState_def faceUpCard_def createCard_def
      canPlaceOnTableau_def SUITS_def
      areOppositeColors_def isRed_def RED_SUITS_def)

subsection \<open>Operations without effect (C8)\<close>

text \<open>
  C8. \<open>undo\<close> with an empty history returns false and the state as it was;
  \<open>drawFromStock\<close> with empty stock and empty waste returns false and the state as it
  was (history, moves and score included).
\<close>

theorem noop_unchanged:
  "(history s = [] \<longrightarrow> undo s = (False, s)) \<and>
   (stock s = [] \<and> waste s = [] \<longrightarrow> drawFromStock cfg s = Inr (False, s))"
  by (simp add: undo_def drawFromStock_def)

theorem noop_unchanged_witness:
  "history emptyState = [] \<and> undo emptyState = (False, emptyState) \<and>
   stock emptyState = [] \<and> waste emptyState = [] \<and>
   drawFromStock standardOne emptyState = Inr (False, emptyState)"
  using noop_unchanged[of emptyState standardOne]
  by (simp add: emptyState_def)

subsection \<open>moveCards on arbitrary descriptors (C9)\<close>

lemma last_take_card:
  "None \<notin> set p \<Longrightarrow> take n p \<noteq> [] \<Longrightarrow> last (take n p) \<noteq> None"
  by (metis in_set_takeD last_in_set)

lemma removeFromSource_ok:
  assumes "namesPile s d" "cardsOnly s"
  shows "\<exists>cards flipped s1. removeFromSource d s = Inr (cards, flipped, s1) \<and>
           length (foundations s1) = length (foundations s) \<and>
           length (tableau s1) = length (tableau s) \<and>
           (location d \<notin> {''waste'', ''foundation'', ''tableau''} \<longrightarrow> cards = [] \<and> s1 = s)"
proof (cases "location d = ''tableau''")
  case True
  with assms(1) obtain i where i: "pileIndex d = Some i" "i < length (tableau s)"
    by (auto simp: namesPile_def split: option.splits)
  define start where "start = (case index d of None \<Rightarrow> 0 | Some j \<Rightarrow> j)"
  from assms(2) i have nn: "None \<notin> set (tableau s ! i)"
    by (simp add: cardsOnly_def)
  show ?thesis
  proof (cases "take start (tableau s ! i) = []")
    case e: True
    with True i show ?thesis
      by (auto simp: removeFromSource_def Let_def start_def[symmetric])
  next
    case ne: False
    with last_take_card[OF nn] obtain c where "last (take start (tableau s ! i)) = Some c"
      by blast
    with ne True i show ?thesis
      by (auto simp: removeFromSource_def Let_def start_def[symmetric])
  qed
next
  case False
  with assms(1) show ?thesis
    by (auto simp: removeFromSource_def namesPile_def Let_def pop_def
        split: option.splits prod.splits)
qed

lemma addToDestination_ok:
  assumes "namesPile s d"
  shows "\<exists>s1. addToDestination cfg d cards flipped s = Inr s1"
  using assms
  by (auto simp: addToDestination_def namesPile_def Let_def split: option.splits)

lemma namesPile_saveState [simp]: "namesPile (saveState s) d = namesPile s d"
  by (simp add: namesPile_def split: option.splits)

lemma cardsOnly_saveState [simp]: "cardsOnly (saveState s) = cardsOnly s"
  by (simp add: cardsOnly_def)

lemma addToDestination_nothing:
  assumes "addToDestination cfg d [] flipped s = Inr s1"
  shows "stock s1 = stock s \<and> waste s1 = waste s \<and> foundations s1 = foundations s \<and>
         tableau s1 = tableau s"
  using assms
  by (auto simp: addToDestination_def Let_def split: option.splits if_splits)

text \<open>
  C9, as the code has it. In a state whose piles hold cards only, \<open>moveCards\<close> returns
  true, pushes the snapshot of the state it was called in and adds one to the move
  count, whenever each descriptor with the tag of a foundation or a tableau pile names
  a pile that exists; the tag may be any string. With a source tag that is none of
  \<open>waste\<close>, \<open>foundation\<close>, \<open>tableau\<close>, no pile changes.
\<close>

theorem moveCards_returns_true:
  assumes "namesPile s fromLocation" and "namesPile s toLocation" and "cardsOnly s"
  shows "\<exists>s'. moveCards cfg fromLocation toLocation s = Inr (True, s') \<and>
           moves s' = moves s + 1 \<and>
           history s' = history (saveState s) \<and>
           (location fromLocation \<notin> {''waste'', ''foundation'', ''tableau''} \<longrightarrow>
              stock s' = stock s \<and> waste s' = waste s \<and>
              foundations s' = foundations s \<and> tableau s' = tableau s)"
proof -
  from removeFromSource_ok[of "saveState s" fromLocation] assms
  obtain cards flipped s1 where
    r: "removeFromSource fromLocation (saveState s) = Inr (cards, flipped, s1)" and
    l: "length (foundations s1) = length (foundations s)"
       "length (tableau s1) = length (tableau s)" and
    u: "location fromLocation \<notin> {''waste'', ''foundation'', ''tableau''} \<longrightarrow>
          cards = [] \<and> s1 = saveState s"
    by auto
  from assms(2) l have "namesPile s1 toLocation"
    by (simp add: namesPile_def split: option.splits)
  from addToDestination_ok[OF this] obtain s2 where
    a: "addToDestination cfg toLocation cards flipped s1 = Inr s2" by blast
  let ?s' = "s2\<lparr>moves := moves s2 + 1\<rparr>"
  have m: "moveCards cfg fromLocation toLocation s = Inr (True, ?s')"
    using r a by (simp add: moveCards_def)
  from moveCards_frame[OF m]
  have f: "moves ?s' = moves s + 1" "history ?s' = history (saveState s)" by simp_all
  have "location fromLocation \<notin> {''waste'', ''foundation'', ''tableau''} \<longrightarrow>
          stock ?s' = stock s \<and> waste ?s' = waste s \<and>
          foundations ?s' = foundations s \<and> tableau ?s' = tableau s"
  proof
    assume "location fromLocation \<notin> {''waste'', ''foundation'', ''tableau''}"
    with u have "cards = []" "s1 = saveState s" by simp_all
    with addToDestination_nothing[of cfg toLocation flipped "saveState s" s2] a
    show "stock ?s' = stock s \<and> waste ?s' = waste s \<and>
          foundations ?s' = foundations s \<and> tableau ?s' = tableau s"
      by simp
  qed
  with m f show ?thesis by blast
qed

text \<open>
  A move from an unknown tag onto the waste: true is returned, the counter advances, a
  snapshot is pushed, and the waste keeps its card.
\<close>

theorem moveCards_returns_true_witness:
  "namesPile wasteOne \<lparr>location = ''nowhere'', pileIndex = None, index = None\<rparr> \<and>
   namesPile wasteOne \<lparr>location = ''waste'', pileIndex = None, index = None\<rparr> \<and>
   cardsOnly wasteOne \<and>
   (\<exists>s'. moveCards standardOne \<lparr>location = ''nowhere'', pileIndex = None, index = None\<rparr>
            \<lparr>location = ''waste'', pileIndex = None, index = None\<rparr> wasteOne = Inr (True, s') \<and>
          moves s' = 1 \<and> length (history s') = 1 \<and> waste s' = [Some (faceUpCard spades 1)])"
  using moveCards_returns_true[of wasteOne
      "\<lparr>location = ''nowhere'', pileIndex = None, index = None\<rparr>"
      "\<lparr>location = ''waste'', pileIndex = None, index = None\<rparr>" standardOne]
  by (auto simp: namesPile_def cardsOnly_def wasteOne_def emptyState_def saveState_def Let_def)

text \<open>
  The claim as stated fails twice. A tableau source with \<open>pileIndex\<close> 9 names no pile:
  \<open>splice\<close> is called on \<open>undefined\<close> and the call raises instead of returning true.
  And with a known source and an unknown destination tag a card does move: the ace
  leaves the waste and arrives nowhere.
\<close>

theorem moveCards_counterexample:
  "moveCards standardOne \<lparr>location = ''tableau'', pileIndex = Some 9, index = Some 0\<rparr>
     \<lparr>location = ''tableau'', pileIndex = Some 0, index = None\<rparr> emptyState = Inl TypeError \<and>
   (case moveCards standardOne \<lparr>location = ''waste'', pileIndex = None, index = None\<rparr>
          \<lparr>location = ''stock'', pileIndex = None, index = None\<rparr> wasteOne of
      Inl e \<Rightarrow> False
    | Inr (b, s') \<Rightarrow> waste wasteOne = [Some (faceUpCard spades 1)] \<and> waste s' = [] \<and>
        stock s' = [] \<and> foundations s' = [[], [], [], []] \<and>
        tableau s' = [[], [], [], [], [], [], []])"
  by (simp add: moveCards_def removeFromSource_def addToDestination_def emptyState_def
      wasteOne_def saveState_def pop_def Let_def)

subsection \<open>The start time and the seed (C10)\<close>

text \<open>
  C10. \<open>saveState\<close> leaves \<open>startTime\<close> and \<open>seed\<close> as they are, and its snapshot
  has the six fields stock, waste, foundations, tableau, moves and score only; \<open>undo\<close>
  restores those six and drops the snapshot. After any sequence of draws, moves,
  auto-moves and undos that does not raise, \<open>startTime\<close> and \<open>seed\<close> are those of
  the state the sequence started in.
\<close>

theorem startTime_seed_unchanged:
  "startTime (saveState s) = startTime s \<and> seed (saveState s) = seed s \<and>
   last (history (saveState s)) =
     \<lparr>stock = stock s, waste = waste s, foundations = foundations s,
      tableau = tableau s, moves = moves s, score = score s\<rparr> \<and>
   (history s \<noteq> [] \<longrightarrow>
      undo s = (True, s\<lparr>history := butlast (history s),
                        stock := stock (last (history s)), waste := waste (last (history s)),
                        foundations := foundations (last (history s)),
                        tableau := tableau (last (history s)),
                        moves := moves (last (history s)),
                        score := score (last (history s))\<rparr>)) \<and>
   (execAll ops s = Inr s' \<longrightarrow> startTime s' = startTime s \<and> seed s' = seed s)"
proof -
  have "execAll ops s = Inr s' \<Longrightarrow> startTime s' = startTime s \<and> seed s' = seed s"
  proof (induction ops arbitrary: s)
    case Nil
    then show ?case by simp
  next
    case (Cons x xs)
    then obtain b s1 where x: "exec x s = Inr (b, s1)" and r: "execAll xs s1 = Inr s'"
      by (auto split: sum.splits prod.splits)
    from Cons.IH[OF r] exec_frame[OF x] show ?case by simp
  qed
  moreover have "last (history (saveState s)) =
     \<lparr>stock = stock s, waste = waste s, foundations = foundations s,
      tableau = tableau s, moves = moves s, score = score s\<rparr>"
    by (cases "history s") (simp_all add: saveState_def Let_def)
  ultimately show ?thesis by (simp add: undo_def Let_def)
qed

text \<open>
  A move, a draw and an undo from \<open>wasteOne\<close> with start time 7 and seed 11982.
\<close>

theorem startTime_seed_unchanged_witness:
  "history (saveState wasteOne) \<noteq> [] \<and>
   (\<exists>s'. execAll [(standardOne, Move \<lparr>location = ''waste'', pileIndex = None, index = None\<rparr>
                       \<lparr>location = ''foundation'', pileIndex = Some 3, index = None\<rparr>),
                  (vegasOne, Draw), (standardOne, Undo)]
            (wasteOne\<lparr>startTime := 7, seed := 11982\<rparr>) = Inr s' \<and>
          startTime s' = 7 \<and> seed s' = 11982)"
  using startTime_seed_unchanged[of "wasteOne\<lparr>startTime := 7, seed := 11982\<rparr>"
      "[(standardOne, Move \<lparr>location = ''waste'', pileIndex = None, index = None\<rparr>
                       \<lparr>location = ''foundation'', pileIndex = Some 3, index = None\<rparr>),
        (vegasOne, Draw), (standardOne, Undo)]"]
  by (simp add: moveCards_def removeFromSource_def addToDestination_def emptyState_def
      wasteOne_def saveState_def pop_def Let_def drawFromStock_def undo_def standardOne_def)

subsection \<open>Undoing a sequence of operations (C2)\<close>

lemma exec_pushes:
  assumes "exec x s = Inr (True, s')" and "snd x \<noteq> Undo"
  shows "history s' = history (saveState s)"
proof -
  obtain cfg op where x: "x = (cfg, op)" by (cases x)
  show ?thesis
  proof (cases op)
    case Draw
    with assms x show ?thesis by (auto dest: drawFromStock_frame)
  next
    case (Move f t)
    with assms x show ?thesis by (auto dest: moveCards_frame)
  next
    case (AutoMove cid)
    with assms x show ?thesis
      by (auto split: sum.splits prod.splits dest: tryAutoMove_frame)
  next
    case Undo
    with assms x show ?thesis by simp
  qed
qed

lemma execOk_snoc:
  "execOk (xs @ [x]) s = (case execOk xs s of None \<Rightarrow> None | Some s1 \<Rightarrow> execOk [x] s1)"
  by (induction xs arbitrary: s) (auto split: sum.splits prod.splits bool.splits)

lemma execOk_history:
  assumes "execOk ops s = Some s'" and "length ops \<le> 50"
  shows "\<exists>d snaps. d \<le> length (history s) \<and> history s' = drop d (history s) @ snaps \<and>
           length snaps = length ops \<and> (ops \<noteq> [] \<longrightarrow> hd snaps = snapshot.truncate s)"
  using assms
proof (induction ops arbitrary: s' rule: rev_induct)
  case Nil
  then show ?case by (intro exI[of _ 0] exI[of _ "[]"]) simp
next
  case (snoc x xs)
  from snoc.prems(1) obtain s1 where s1: "execOk xs s = Some s1" and x: "execOk [x] s1 = Some s'"
    by (auto simp: execOk_snoc split: option.splits)
  from x have e: "exec x s1 = Inr (True, s')" and u: "snd x \<noteq> Undo"
    by (auto split: if_splits sum.splits prod.splits bool.splits)
  from snoc.IH[OF s1] snoc.prems(2) obtain d snaps where
    d: "d \<le> length (history s)" and h: "history s1 = drop d (history s) @ snaps" and
    l: "length snaps = length xs" and f: "xs \<noteq> [] \<longrightarrow> hd snaps = snapshot.truncate s"
    by auto
  let ?t = "snapshot.truncate s1"
  have hs: "history s' = (let hh = history s1 @ [?t] in if length hh > 50 then tl hh else hh)"
    using exec_pushes[OF e u] by (simp add: saveState_def snapshot.truncate_def Let_def)
  have hd: "(xs @ [x]) \<noteq> [] \<longrightarrow> hd (snaps @ [?t]) = snapshot.truncate s"
  proof (cases xs)
    case Nil
    with l s1 show ?thesis by simp
  next
    case (Cons a as)
    with l f show ?thesis by (cases snaps) auto
  qed
  show ?case
  proof (cases "length (history s1 @ [?t]) > 50")
    case False
    with hs h have "history s' = drop d (history s) @ (snaps @ [?t])" by (simp add: Let_def)
    with d l hd show ?thesis by (intro exI[of _ d] exI[of _ "snaps @ [?t]"]) simp
  next
    case True
    have ne: "drop d (history s) \<noteq> []"
    proof
      assume "drop d (history s) = []"
      with h True l snoc.prems(2) show False by simp
    qed
    then have d': "Suc d \<le> length (history s)" by (simp add: Suc_le_eq)
    from ne have "tl (history s1 @ [?t]) = drop (Suc d) (history s) @ (snaps @ [?t])"
      using h by (simp add: drop_Suc tl_drop)
    with hs True have "history s' = drop (Suc d) (history s) @ (snaps @ [?t])"
      by (simp add: Let_def)
    with d' l hd show ?thesis by (intro exI[of _ "Suc d"] exI[of _ "snaps @ [?t]"]) simp
  qed
qed

lemma undoN_restores:
  assumes "history s = H @ xs" and "length xs = Suc n"
  shows "snapshot.truncate (undoN (Suc n) s) = hd xs"
  using assms
proof (induction n arbitrary: s xs)
  case 0
  then obtain x where "xs = [x]" by (cases xs) auto
  with 0 show ?case by (simp add: undo_def Let_def snapshot.truncate_def)
next
  case (Suc n)
  let ?s1 = "snd (undo s)"
  from Suc.prems have ne: "xs \<noteq> []" by auto
  with Suc.prems have h1: "history ?s1 = H @ butlast xs"
    by (simp add: undo_def Let_def butlast_append)
  from Suc.prems have l1: "length (butlast xs) = Suc n" by simp
  from Suc.IH[OF h1 l1] have "snapshot.truncate (undoN (Suc n) ?s1) = hd (butlast xs)" .
  moreover from l1 ne have "hd (butlast xs) = hd xs" by (cases xs) auto
  ultimately show ?case by simp
qed

text \<open>
  C2, as the code has it. After at most 50 successful mutating operations (draws, moves,
  auto-moves), as many undos give back the piles, the move count and the score of the
  state the sequence started in. The history keeps 50 snapshots.
\<close>

theorem undo_reverses:
  assumes "execOk ops s = Some s'" and "length ops \<le> 50"
  shows "roundTrip ops s = Some (snapshot.truncate s) \<and>
         stock (undoN (length ops) s') = stock s \<and> waste (undoN (length ops) s') = waste s \<and>
         foundations (undoN (length ops) s') = foundations s \<and>
         tableau (undoN (length ops) s') = tableau s \<and>
         moves (undoN (length ops) s') = moves s \<and> score (undoN (length ops) s') = score s"
proof -
  have t: "snapshot.truncate (undoN (length ops) s') = snapshot.truncate s"
  proof (cases ops)
    case Nil
    with assms show ?thesis by simp
  next
    case (Cons a as)
    from execOk_history[OF assms] Cons obtain d snaps where
      h: "history s' = drop d (history s) @ snaps" and l: "length snaps = Suc (length as)" and
      f: "hd snaps = snapshot.truncate s"
      by auto
    from undoN_restores[OF h l] f Cons show ?thesis by simp
  qed
  then have "stock (undoN (length ops) s') = stock s \<and> waste (undoN (length ops) s') = waste s \<and>
         foundations (undoN (length ops) s') = foundations s \<and>
         tableau (undoN (length ops) s') = tableau s \<and>
         moves (undoN (length ops) s') = moves s \<and> score (undoN (length ops) s') = score s"
    by (simp add: snapshot.truncate_def)
  with t assms(1) show ?thesis by (simp add: roundTrip_def)
qed

theorem undo_reverses_witness:
  "execOk threeMoves undoExample \<noteq> None \<and> length threeMoves \<le> 50 \<and>
   roundTrip threeMoves undoExample = Some (snapshot.truncate undoExample)"
proof -
  have e: "execOk threeMoves undoExample \<noteq> None" by code_simp
  then obtain s' where s': "execOk threeMoves undoExample = Some s'" by blast
  have l: "length threeMoves \<le> 50" by (simp add: threeMoves_def)
  from undo_reverses[OF s' l] e l show ?thesis by blast
qed

text \<open>
  With 51 operations the claim as stated fails: 51 draws from a one-card stock (draw,
  reset, draw, ...) succeed, the 51st push drops the first snapshot, the 51st undo finds
  the history empty, and the state is the one after the first draw.
\<close>

theorem undo_reverses_counterexample:
  "execOk (replicate 51 (standardOne, Draw)) oneInStock \<noteq> None \<and>
   roundTrip (replicate 51 (standardOne, Draw)) oneInStock =
     Some \<lparr>stock = [], waste = [Some (faceUpCard hearts 1)],
           foundations = [[], [], [], []], tableau = [[], [], [], [], [], [], []],
           moves = 1, score = 0\<rparr> \<and>
   snapshot.truncate oneInStock =
     \<lparr>stock = [Some (createCard hearts 1)], waste = [],
      foundations = [[], [], [], []], tableau = [[], [], [], [], [], [], []],
      moves = 0, score = 0\<rparr>"
  by code_simp

subsection \<open>The seeded generator (C5)\<close>

lemma pow2_powi: "pow2 e = 2 powi e"
  by (simp add: pow2_def power_int_def power_one_over)

lemma bits_bounds:
  "0 < n \<Longrightarrow> 0 < bits n \<and> 2 ^ nat (bits n - 1) \<le> n \<and> n < 2 ^ nat (bits n)"
proof (induction n rule: bits.induct)
  case (1 n)
  have bn: "bits n = 1 + bits (n div 2)" using "1.prems" by (simp add: bits.simps[of n])
  show ?case
  proof (cases "n div 2 = 0")
    case True
    with "1.prems" have "n = 1" by auto
    then show ?thesis by (simp add: bits.simps[of 1] bits.simps[of 0])
  next
    case False
    with "1.prems" have "0 < n div 2" by simp
    with "1.IH" "1.prems" have IH: "0 < bits (n div 2)"
        "2 ^ nat (bits (n div 2) - 1) \<le> n div 2" "n div 2 < 2 ^ nat (bits (n div 2))"
      by simp_all
    define k where "k = nat (bits (n div 2) - 1)"
    from IH(1) have k: "nat (bits (n div 2)) = Suc k" by (simp add: k_def)
    define p where "p = (2::int) ^ k"
    from IH k have "p \<le> n div 2" "n div 2 < 2 * p" by (simp_all add: p_def k_def)
    then have "2 * p \<le> n" "n < 2 * (2 * p)" by arith+
    moreover from IH(1) have "nat (bits n - 1) = Suc k" "nat (bits n) = Suc (Suc k)"
      using bn k by simp_all
    moreover from IH(1) bn have "0 < bits n" by simp
    ultimately show ?thesis by (simp add: p_def)
  qed
qed

lemma expo_bounds:
  assumes "0 < q"
  shows "2 powi (expo q) \<le> q \<and> q < 2 powi (expo q + 1)"
proof -
  obtain a b where ab: "quotient_of q = (a, b)" by (cases "quotient_of q")
  then have b0: "0 < b" and q: "q = of_int a / of_int b"
    by (simp_all add: quotient_of_denom_pos quotient_of_div)
  from assms q b0 have a0: "0 < a" by (simp add: zero_less_divide_iff)
  define la where "la = nat (bits a)"
  define lb where "lb = nat (bits b)"
  from bits_bounds[OF a0] have la0: "0 < la" and la: "bits a = int la"
    by (simp_all add: la_def)
  then have "nat (bits a - 1) = la - 1" by simp
  with bits_bounds[OF a0] have A: "2 ^ (la - 1) \<le> a" "a < 2 ^ la"
    by (simp_all add: la_def)
  from bits_bounds[OF b0] have lb0: "0 < lb" and lb: "bits b = int lb"
    by (simp_all add: lb_def)
  then have "nat (bits b - 1) = lb - 1" by simp
  with bits_bounds[OF b0] have B: "2 ^ (lb - 1) \<le> b" "b < 2 ^ lb"
    by (simp_all add: lb_def)
  have Ar: "(2::rat) ^ (la - 1) \<le> of_int a" "of_int a < (2::rat) ^ la"
  proof -
    from A(1) have "(of_int (2 ^ (la - 1))::rat) \<le> of_int a" by (simp only: of_int_le_iff)
    then show "(2::rat) ^ (la - 1) \<le> of_int a" by simp
    from A(2) have "(of_int a::rat) < of_int (2 ^ la)" by (simp only: of_int_less_iff)
    then show "of_int a < (2::rat) ^ la" by simp
  qed
  have Br: "(2::rat) ^ (lb - 1) \<le> of_int b" "of_int b < (2::rat) ^ lb"
  proof -
    from B(1) have "(of_int (2 ^ (lb - 1))::rat) \<le> of_int b" by (simp only: of_int_le_iff)
    then show "(2::rat) ^ (lb - 1) \<le> of_int b" by simp
    from B(2) have "(of_int b::rat) < of_int (2 ^ lb)" by (simp only: of_int_less_iff)
    then show "of_int b < (2::rat) ^ lb" by simp
  qed
  define e0 where "e0 = int la - int lb"
  have br: "(0::rat) < of_int b" using b0 by simp
  \<comment> \<open>upper bound: q < 2 powi (e0 + 1)\<close>
  have up: "q < 2 powi (e0 + 1)"
  proof -
    have "2 powi (e0 + 1) = (2::rat) ^ la / 2 ^ (lb - 1)"
    proof -
      have "e0 + 1 = int la - int (lb - 1)" using lb0 by (simp add: e0_def)
      then show ?thesis by (simp add: power_int_diff)
    qed
    moreover have "of_int a / of_int b < (2::rat) ^ la / 2 ^ (lb - 1)"
    proof -
      have "of_int a / of_int b < (2::rat) ^ la / of_int b"
        using Ar(2) br by (simp add: divide_strict_right_mono)
      also have "\<dots> \<le> (2::rat) ^ la / 2 ^ (lb - 1)"
        using Br(1) by (simp add: frac_le)
      finally show ?thesis .
    qed
    ultimately show ?thesis using q by simp
  qed
  \<comment> \<open>lower bound: 2 powi (e0 - 1) \<le> q\<close>
  have lo: "2 powi (e0 - 1) \<le> q"
  proof -
    have "2 powi (e0 - 1) = (2::rat) ^ (la - 1) / 2 ^ lb"
    proof -
      have "e0 - 1 = int (la - 1) - int lb" using la0 by (simp add: e0_def)
      then show ?thesis by (simp add: power_int_diff)
    qed
    moreover have "(2::rat) ^ (la - 1) / 2 ^ lb \<le> of_int a / of_int b"
    proof -
      have "(2::rat) ^ (la - 1) / 2 ^ lb \<le> of_int a / 2 ^ lb"
        using Ar(1) by (simp add: divide_right_mono)
      also have "\<dots> \<le> of_int a / of_int b"
        using Br(2) br a0 by (simp add: frac_le)
      finally show ?thesis .
    qed
    ultimately show ?thesis using q by simp
  qed
  have ex: "expo q = (if 2 powi e0 \<le> q then e0 else e0 - 1)"
    by (simp add: expo_def ab la lb e0_def pow2_powi Let_def)
  show ?thesis
  proof (cases "2 powi e0 \<le> q")
    case True
    with ex up show ?thesis by simp
  next
    case False
    with ex lo show ?thesis by simp
  qed
qed

lemma rne_of_int [simp]: "rne (of_int z) = z"
  by (simp add: rne_def)

lemma rne_le: "x \<le> of_int z \<Longrightarrow> rne x \<le> z"
proof -
  assume a: "x \<le> of_int z"
  show ?thesis
  proof (cases "x = of_int z")
    case True
    then show ?thesis by simp
  next
    case False
    with a have "x < of_int z" by simp
    then have "\<lfloor>x\<rfloor> < z" by (simp add: floor_less_iff)
    then have "\<lfloor>x\<rfloor> + 1 \<le> z" by simp
    then show ?thesis by (auto simp: rne_def Let_def)
  qed
qed

lemma rne_nonneg: "0 \<le> x \<Longrightarrow> 0 \<le> rne x"
  by (auto simp: rne_def Let_def)

lemma fl_nonneg: "0 \<le> q \<Longrightarrow> 0 \<le> fl q"
proof -
  assume q: "0 \<le> q"
  show ?thesis
  proof (cases "q = 0")
    case True
    then show ?thesis by (simp add: fl_def)
  next
    case False
    with q have q0: "0 < q" by simp
    let ?u = "pow2 (expo \<bar>q\<bar> - 52)"
    have u: "0 < ?u" by (simp add: pow2_powi)
    with q0 have "0 \<le> \<bar>q\<bar> / ?u" by simp
    then have "0 \<le> rne (\<bar>q\<bar> / ?u)" by (rule rne_nonneg)
    with q0 u show ?thesis by (simp add: fl_def Let_def)
  qed
qed

text \<open>Rounding does not pass a representable bound.\<close>

lemma fl_le:
  assumes "0 < q" and "q \<le> of_int k / 2 ^ t" and "k < 2 ^ 53"
  shows "fl q \<le> of_int k / 2 ^ t"
proof -
  define e where "e = expo q"
  from expo_bounds[OF assms(1)] have lo: "2 powi e \<le> q" by (simp add: e_def)
  define u :: rat where "u = 2 powi (e - 52)"
  have u0: "0 < u" by (simp add: u_def)
  have fl: "fl q = of_int (rne (q / u)) * u"
    using assms(1) by (simp add: fl_def Let_def pow2_powi e_def u_def)
  have le53: "e + int t \<le> 52"
  proof (rule ccontr)
    assume "\<not> e + int t \<le> 52"
    then have "53 - int t \<le> e" by simp
    then have "(2::rat) powi (53 - int t) \<le> 2 powi e" by (simp add: power_int_increasing)
    with lo assms(2) have "(2::rat) powi (53 - int t) \<le> of_int k / 2 ^ t" by simp
    moreover have "(2::rat) powi (53 - int t) = 2 ^ 53 / 2 ^ t"
      by (simp add: power_int_diff)
    ultimately have "(2::rat) ^ 53 \<le> of_int k" by (simp add: divide_le_cancel)
    moreover from assms(3) have "(of_int k::rat) < of_int (2 ^ 53)" by (simp only: of_int_less_iff)
    ultimately show False by simp
  qed
  define n where "n = nat (52 - e - int t)"
  have n: "int n = 52 - e - int t" using le53 by (simp add: n_def)
  have bound: "of_int k / 2 ^ t / u = of_int (k * 2 ^ n)"
  proof -
    have "1 / u = (2::rat) powi (52 - e)" by (simp add: u_def power_int_diff)
    moreover have "52 - e = int n + int t" using n by simp
    ultimately have "1 / u = (2::rat) ^ n * 2 ^ t"
      by (simp add: power_int_add)
    then have "of_int k / 2 ^ t / u = of_int k / 2 ^ t * ((2::rat) ^ n * 2 ^ t)"
      by (metis divide_inverse inverse_eq_divide)
    then show ?thesis by simp
  qed
  have "q / u \<le> of_int k / 2 ^ t / u"
    by (rule divide_right_mono[OF assms(2)]) (use u0 in simp)
  then have "q / u \<le> of_int (k * 2 ^ n)" by (simp only: bound)
  then have "rne (q / u) \<le> k * 2 ^ n" by (rule rne_le)
  then have "(of_int (rne (q / u))::rat) \<le> of_int (k * 2 ^ n)" by (simp only: of_int_le_iff)
  with u0 have "of_int (rne (q / u)) * u \<le> of_int (k * 2 ^ n) * u" by (simp add: mult_right_mono)
  also have "of_int (k * 2 ^ n) * u = of_int k / 2 ^ t"
    using bound u0 by (simp add: field_simps)
  finally show ?thesis using fl by simp
qed

text \<open>An integer of magnitude below \<open>2^53\<close> is a double.\<close>

lemma fl_of_int:
  assumes "\<bar>n\<bar> < 2 ^ 53"
  shows "fl (of_int n) = of_int n"
proof (cases "n = 0")
  case True
  then show ?thesis by (simp add: fl_def)
next
  case False
  define q :: rat where "q = \<bar>of_int n\<bar>"
  have q0: "0 < q" using False by (simp add: q_def)
  have qn: "q = of_int \<bar>n\<bar>" by (simp add: q_def)
  define e where "e = expo q"
  from expo_bounds[OF q0] have lo: "2 powi e \<le> q" by (simp add: e_def)
  have "q < 2 ^ 53"
  proof -
    from assms have "(of_int \<bar>n\<bar>::rat) < of_int (2 ^ 53)" by (simp only: of_int_less_iff)
    then show ?thesis by (simp add: qn)
  qed
  with lo have "(2::rat) powi e < 2 powi 53" by simp
  then have e52: "e \<le> 52"
    by (smt (verit) power_int_increasing one_le_numeral not_less)
  define m where "m = nat (52 - e)"
  have m: "int m = 52 - e" using e52 by (simp add: m_def)
  define u :: rat where "u = 2 powi (e - 52)"
  have u0: "0 < u" by (simp add: u_def)
  have "1 / u = (2::rat) powi (52 - e)" by (simp add: u_def power_int_diff)
  with m have iu: "1 / u = (2::rat) ^ m" by (metis power_int_of_nat)
  have "q / u = q * (1 / u)" by simp
  also have "\<dots> = of_int (\<bar>n\<bar> * 2 ^ m)" by (simp add: iu qn)
  finally have "rne (q / u) = \<bar>n\<bar> * 2 ^ m" by (simp only: rne_of_int)
  then have "of_int (rne (q / u)) * u = q * ((2::rat) ^ m * u)" by (simp add: qn)
  also have "(2::rat) ^ m * u = 1" using iu u0 by (simp add: field_simps)
  finally have r: "of_int (rne (q / u)) * u = q" by simp
  have "fl (of_int n) = sgn (of_int n) * (of_int (rne (q / u)) * u)"
    using False by (simp add: fl_def Let_def q_def e_def u_def pow2_powi mult.assoc)
  with r have "fl (of_int n) = sgn (of_int n) * \<bar>of_int n :: rat\<bar>" by (simp add: q_def)
  then show ?thesis by (simp add: sgn_mult_abs)
qed


lemma truncate_of_int [simp]: "truncate (of_int n) = n"
  by (simp add: truncate_def)

lemma next_rand_seed_range: "0 \<le> snd (next_rand sd) \<and> snd (next_rand sd) < 2 ^ 31"
  by (simp add: next_rand_def Let_def)

lemma next_rand_value:
  "fst (next_rand sd) = fl (of_int (snd (next_rand sd)) / 2147483647)"
  by (simp add: next_rand_def Let_def)

lemma next_rand_unit: "0 \<le> fst (next_rand sd) \<and> fst (next_rand sd) \<le> 1"
proof -
  define n where "n = snd (next_rand sd)"
  from next_rand_seed_range[of sd] have n: "0 \<le> n" "n \<le> 2147483647" by (simp_all add: n_def)
  define q :: rat where "q = of_int n / 2147483647"
  have q0: "0 \<le> q" using n(1) by (simp add: q_def)
  have "(of_int n::rat) \<le> of_int 2147483647" using n(2) by (simp only: of_int_le_iff)
  then have q1: "q \<le> of_int 1 / 2 ^ 0" by (simp add: q_def)
  have "fl q \<le> of_int 1 / 2 ^ 0"
  proof (cases "q = 0")
    case True
    then show ?thesis by (simp add: fl_def)
  next
    case False
    with q0 have "0 < q" by simp
    from fl_le[OF this q1] show ?thesis by simp
  qed
  with fl_nonneg[OF q0] show ?thesis by (simp add: next_rand_value n_def q_def)
qed

lemma lcg_not_all_ones_product:
  assumes "\<bar>sd\<bar> * 1103515245 < (2::int) ^ 53"
  shows "(sd * 1103515245 + 12345) mod 2147483648 \<noteq> (2147483647::int)"
proof
  assume a: "(sd * 1103515245 + 12345) mod 2147483648 = (2147483647::int)"
  define k where "k = (sd * 1103515245 + 12345) div 2147483648"
  have "sd * 1103515245 + 12345 =
          2147483648 * k + (sd * 1103515245 + 12345) mod 2147483648"
    unfolding k_def by (rule mult_div_mod_eq[symmetric])
  with a have E: "sd * 1103515245 = 2147483648 * k + 2147483647 - 12345" by linarith
  define w where "w = 1857678181 * k + 1857678181 - sd * 954594553 - 10679"
  from E have "sd * 1103515245 * 1857678181 =
                 (2147483648 * k + 2147483647 - 12345) * 1857678181" by (simp only:)
  then have sd: "sd = 2147483648 * w - 1916945634"
    unfolding w_def by (simp add: algebra_simps)
  from assms have b: "\<bar>sd\<bar> * 1103515245 < 9007199254740992" by simp
  show False
  proof (cases "1 \<le> w")
    case True
    with sd have "230538014 \<le> sd" by linarith
    with b show False by linarith
  next
    case False
    with sd have "sd \<le> - 1916945634" by linarith
    with b show False by linarith
  qed
qed

lemma lcg_not_all_ones:
  assumes "\<bar>sd\<bar> * 1103515245 + 12345 < (2::int) ^ 53"
  shows "(sd * 1103515245 + 12345) mod 2147483648 \<noteq> (2147483647::int)"
proof -
  from assms have "\<bar>sd\<bar> * 1103515245 < (2::int) ^ 53" by simp
  then show ?thesis by (rule lcg_not_all_ones_product)
qed

text \<open>In the exact range the update is the congruence and the value stays away from 1.\<close>

lemma next_rand_exact:
  assumes a: "\<bar>sd\<bar> * 1103515245 + 12345 < 2 ^ 53"
  shows "snd (next_rand sd) = (sd * 1103515245 + 12345) mod 2 ^ 31 \<and>
         fst (next_rand sd) \<le> 4294967295 / 2 ^ 32"
proof -
  from a have p: "\<bar>sd * 1103515245\<bar> < 2 ^ 53" by (simp add: abs_mult)
  from a have q: "\<bar>sd * 1103515245 + 12345\<bar> < 2 ^ 53" by (simp add: abs_mult)
  have "fl (of_int sd * 1103515245) = fl (of_int (sd * 1103515245))" by simp
  also have "\<dots> = of_int (sd * 1103515245)" by (rule fl_of_int[OF p])
  finally have m: "fl (of_int sd * 1103515245) = of_int (sd * 1103515245)" .
  have "fl (of_int (sd * 1103515245) + 12345) = fl (of_int (sd * 1103515245 + 12345))" by simp
  also have "\<dots> = of_int (sd * 1103515245 + 12345)" by (rule fl_of_int[OF q])
  finally have s: "fl (of_int (sd * 1103515245) + 12345) = of_int (sd * 1103515245 + 12345)" .
  have n: "snd (next_rand sd) = (sd * 1103515245 + 12345) mod 2147483648"
    unfolding next_rand_def Let_def snd_conv m s truncate_of_int ..
  define n where "n = snd (next_rand sd)"
  from n lcg_not_all_ones[OF a] next_rand_seed_range[of sd]
  have r: "0 \<le> n" "n \<le> 2147483646" by (simp_all add: n_def)
  define v :: rat where "v = of_int n / 2147483647"
  have "(of_int n::rat) \<le> of_int 2147483646" using r(2) by (simp only: of_int_le_iff)
  then have v1: "v \<le> of_int 4294967295 / 2 ^ 32" by (simp add: v_def)
  have "fl v \<le> of_int 4294967295 / 2 ^ 32"
  proof (cases "v = 0")
    case True
    then show ?thesis by (simp add: fl_def)
  next
    case False
    moreover have "0 \<le> v" using r(1) by (simp add: v_def)
    ultimately have "0 < v" by simp
    from fl_le[OF this v1] show ?thesis by simp
  qed
  then have "fst (next_rand sd) \<le> 4294967295 / 2 ^ 32"
    by (simp add: next_rand_value n_def v_def)
  with n show ?thesis by simp
qed

text \<open>The rounding of \<open>fl\<close> on an integer is \<open>round53\<close>.\<close>

lemma expo_of_int:
  assumes "0 < n"
  shows "expo (of_int n) = bits n - 1"
proof -
  from bits_bounds[OF assms] have b: "0 < bits n" "2 ^ nat (bits n - 1) \<le> n" by simp_all
  have one: "bits 1 = 1" by (simp add: bits.simps[of 1] bits.simps[of 0])
  have "(of_int (2 ^ nat (bits n - 1))::rat) \<le> of_int n" using b(2) by (simp only: of_int_le_iff)
  then have "(2::rat) ^ nat (bits n - 1) \<le> of_int n" by simp
  moreover have "pow2 (bits n - 1) = (2::rat) ^ nat (bits n - 1)"
    using b(1) by (simp add: pow2_def)
  ultimately have "pow2 (bits n - 1) \<le> of_int n" by simp
  then show ?thesis by (simp add: expo_def one Let_def)
qed

lemma rne_div:
  assumes "0 < m"
  shows "rne (of_int n / of_int m) =
          (if 2 * (n mod m) < m \<or> (2 * (n mod m) = m \<and> even (n div m)) then n div m
           else n div m + 1)"
proof -
  define q where "q = n div m"
  define r where "r = n mod m"
  have n: "n = m * q + r" by (simp add: q_def r_def)
  have mr: "(0::rat) < of_int m" using assms by simp
  have fl: "\<lfloor>(of_int n::rat) / of_int m\<rfloor> = q" by (simp add: floor_divide_of_int_eq q_def)
  have d: "(of_int n::rat) / of_int m - of_int q = of_int r / of_int m"
    using mr by (simp add: n field_simps)
  have lt: "((of_int r::rat) / of_int m < 1 / 2) = (2 * r < m)"
  proof -
    have "((of_int r::rat) / of_int m < 1 / 2) = ((of_int (2 * r)::rat) < of_int m)"
      using mr by (simp add: field_simps)
    then show ?thesis by (simp only: of_int_less_iff)
  qed
  have gt: "(1 / 2 < (of_int r::rat) / of_int m) = (m < 2 * r)"
  proof -
    have "(1 / 2 < (of_int r::rat) / of_int m) = ((of_int m::rat) < of_int (2 * r))"
      using mr by (simp add: field_simps)
    then show ?thesis by (simp only: of_int_less_iff)
  qed
  have "rne (of_int n / of_int m) =
          (if 2 * r < m then q else if m < 2 * r then q + 1 else if even q then q else q + 1)"
    by (simp only: rne_def Let_def fl d lt gt)
  then show ?thesis unfolding q_def r_def by auto
qed

lemma fl_minus: "fl (- q) = - fl q"
  by (simp add: fl_def Let_def sgn_minus)

lemma round53_minus: "round53 (- n) = - round53 n"
  by (simp add: round53_def Let_def sgn_minus)

lemma bits_big:
  assumes "2 ^ 53 \<le> n"
  shows "54 \<le> bits n"
proof (rule ccontr)
  assume "\<not> 54 \<le> bits n"
  then have "nat (bits n) \<le> 53" by simp
  then have "(2::int) ^ nat (bits n) \<le> 2 ^ 53" by (rule power_increasing) simp
  moreover from assms have "0 < n" by (simp add: order.strict_trans2[of 0 "2 ^ 53"])
  from bits_bounds[OF this] have "n < 2 ^ nat (bits n)" by simp
  ultimately show False using assms by linarith
qed

lemma fl_round53_pos:
  assumes "0 < n"
  shows "fl (of_int n) = of_int (round53 n)"
proof (cases "n < 2 ^ 53")
  case True
  with assms have "\<bar>n\<bar> < 2 ^ 53" by simp
  then show ?thesis by (simp add: fl_of_int round53_def)
next
  case False
  then have big: "2 ^ 53 \<le> n" by simp
  define e where "e = nat (bits n - 53)"
  from bits_big[OF big] have e: "int e = bits n - 53" by (simp add: e_def)
  have ex: "expo \<bar>of_int n\<bar> - 52 = int e"
    using assms expo_of_int[OF assms] e by simp
  have u: "pow2 (int e) = of_int (2 ^ e)" by (simp add: pow2_def)
  have m0: "(0::int) < 2 ^ e" by simp
  define k where "k = (if 2 * (n mod 2 ^ e) < 2 ^ e \<or> (2 * (n mod 2 ^ e) = 2 ^ e \<and> even (n div 2 ^ e))
                       then n div 2 ^ e else n div 2 ^ e + 1)"
  have r: "rne (of_int n / of_int (2 ^ e)) = k"
    unfolding k_def by (rule rne_div[OF m0])
  have n0: "(of_int n::rat) \<noteq> 0" using assms by simp
  have "fl (of_int n) = sgn (of_int n) * of_int (rne (\<bar>of_int n\<bar> / pow2 (int e))) * pow2 (int e)"
    using n0 by (simp only: fl_def Let_def ex if_False)
  also have "\<dots> = of_int k * of_int (2 ^ e)"
    using assms r by (simp add: u)
  also have "\<dots> = of_int (2 ^ e * k)" by simp
  finally have f: "fl (of_int n) = of_int (2 ^ e * k)" .
  have "round53 n = 2 ^ e * k"
    using assms False by (simp add: round53_def Let_def e_def k_def)
  with f show ?thesis by simp
qed

lemma fl_round53: "fl (of_int n) = of_int (round53 n)"
proof -
  consider "n = 0" | "0 < n" | "n < 0" by linarith
  then show ?thesis
  proof cases
    case 1
    then show ?thesis by (simp add: fl_def round53_def)
  next
    case 2
    then show ?thesis by (rule fl_round53_pos)
  next
    case 3
    then have "0 < - n" by simp
    from fl_round53_pos[OF this] have "fl (of_int (- n)) = of_int (round53 (- n))" .
    then have "fl (- of_int n) = of_int (- round53 n)" by (simp add: round53_minus)
    then show ?thesis by (simp add: fl_minus)
  qed
qed

lemma next_rand_round53:
  "snd (next_rand sd) = round53 (round53 (sd * 1103515245) + 12345) mod 2 ^ 31"
proof -
  have "fl (of_int sd * 1103515245) = fl (of_int (sd * 1103515245))" by simp
  also have "\<dots> = of_int (round53 (sd * 1103515245))" by (rule fl_round53)
  finally have m: "fl (of_int sd * 1103515245) = of_int (round53 (sd * 1103515245))" .
  have "fl (of_int (round53 (sd * 1103515245)) + 12345) =
          fl (of_int (round53 (sd * 1103515245) + 12345))" by simp
  also have "\<dots> = of_int (round53 (round53 (sd * 1103515245) + 12345))" by (rule fl_round53)
  finally have s: "fl (of_int (round53 (sd * 1103515245)) + 12345) =
                     of_int (round53 (round53 (sd * 1103515245) + 12345))" .
  have "snd (next_rand sd) = round53 (round53 (sd * 1103515245) + 12345) mod 2147483648"
    unfolding next_rand_def Let_def snd_conv m s truncate_of_int ..
  then show ?thesis by simp
qed

text \<open>
  A rounded integer of magnitude \<open>2^53\<close> or more is even, so its low 31 bits are never
  all ones; below \<open>2^53\<close> the congruence excludes it. Hence the value stays below 1.
\<close>

lemma round53_big:
  assumes "2 ^ 53 \<le> \<bar>n\<bar>"
  shows "even (round53 n) \<and> 2 ^ 53 \<le> \<bar>round53 n\<bar>"
proof -
  define e where "e = nat (bits \<bar>n\<bar> - 53)"
  define q where "q = \<bar>n\<bar> div 2 ^ e"
  define k where "k = (if 2 * (\<bar>n\<bar> mod 2 ^ e) < 2 ^ e \<or> (2 * (\<bar>n\<bar> mod 2 ^ e) = 2 ^ e \<and> even q)
                       then q else q + 1)"
  from bits_big[OF assms] have e1: "1 \<le> e" and e: "int e = bits \<bar>n\<bar> - 53"
    by (simp_all add: e_def)
  have r: "round53 n = sgn n * (2 ^ e * k)"
    using assms by (simp add: round53_def Let_def e_def q_def k_def)
  from assms have "0 < \<bar>n\<bar>" by (simp add: order.strict_trans2[of 0 "2 ^ 53"])
  from bits_bounds[OF this] have "2 ^ nat (bits \<bar>n\<bar> - 1) \<le> \<bar>n\<bar>" by simp
  moreover have "nat (bits \<bar>n\<bar> - 1) = e + 52" using e by simp
  ultimately have "(2::int) ^ (e + 52) \<le> \<bar>n\<bar>" by simp
  then have "(2::int) ^ (e + 52) div 2 ^ e \<le> \<bar>n\<bar> div 2 ^ e" by (rule zdiv_mono1) simp
  moreover have "(2::int) ^ (e + 52) div 2 ^ e = 2 ^ 52" by (simp add: power_add)
  ultimately have q52: "2 ^ 52 \<le> q" by (simp add: q_def)
  then have k52: "2 ^ 52 \<le> k" by (simp add: k_def)
  from e1 have ev: "even ((2::int) ^ e)" by simp
  have "(2::int) ^ 1 \<le> 2 ^ e" using e1 by (intro power_increasing) simp_all
  then have two: "(2::int) \<le> 2 ^ e" by simp
  have "(2::int) * 2 ^ 52 \<le> 2 ^ e * k"
    using two k52 by (intro mult_mono) simp_all
  then have ge: "(2::int) ^ 53 \<le> 2 ^ e * k" by simp
  from assms have n0: "n \<noteq> 0" by auto
  have "\<bar>round53 n\<bar> = \<bar>2 ^ e * k\<bar>" using n0 by (simp add: r abs_mult abs_sgn_eq)
  with ge have A: "2 ^ 53 \<le> \<bar>round53 n\<bar>" by simp
  have "even (round53 n)" using ev by (simp add: r)
  with A show ?thesis by simp
qed

lemma seed_not_all_ones: "snd (next_rand sd) \<noteq> 2147483647"
proof
  assume top: "snd (next_rand sd) = 2147483647"
  define p where "p = sd * 1103515245"
  define a where "a = round53 p"
  define x where "x = a + 12345"
  from top have m: "round53 x mod 2147483648 = 2147483647"
    by (simp add: next_rand_round53 x_def a_def p_def)
  show False
  proof (cases "\<bar>x\<bar> < 2 ^ 53")
    case False
    then have "2 ^ 53 \<le> \<bar>x\<bar>" by simp
    from round53_big[OF this] have "even (round53 x)" by simp
    then have "even (round53 x mod 2147483648)"
      using dvd_mod_iff[of 2 2147483648 "round53 x"] by simp
    with m show False by simp
  next
    case True
    then have rx: "round53 x = x" by (simp add: round53_def)
    show False
    proof (cases "\<bar>p\<bar> < 2 ^ 53")
      case True
      then have "a = p" by (simp add: a_def round53_def)
      with m rx have "(sd * 1103515245 + 12345) mod 2147483648 = 2147483647"
        by (simp add: x_def p_def)
      moreover from True have "\<bar>sd\<bar> * 1103515245 < 2 ^ 53" by (simp add: p_def abs_mult)
      ultimately show False using lcg_not_all_ones_product by blast
    next
      case False
      then have "2 ^ 53 \<le> \<bar>p\<bar>" by simp
      from round53_big[OF this] have "2 ^ 53 \<le> \<bar>a\<bar>" by (simp add: a_def)
      then have ab: "9007199254740992 \<le> \<bar>a\<bar>" by simp
      from True have xb: "\<bar>a + 12345\<bar> < 9007199254740992" by (simp add: x_def)
      from ab xb have lo: "a \<le> - 9007199254740992" by linarith
      from xb have hi: "- 9007199254753337 < a" by linarith
      define k where "k = (a + 12345) div 2147483648"
      have "a + 12345 = 2147483648 * k + (a + 12345) mod 2147483648"
        unfolding k_def by (rule mult_div_mod_eq[symmetric])
      with m rx have E: "a + 12346 = 2147483648 * (k + 1)" by (simp add: x_def)
      show False
      proof (cases "k + 1 \<le> - 4194304")
        case True
        then have "2147483648 * (k + 1) \<le> 2147483648 * (- 4194304)"
          by (intro mult_left_mono) simp_all
        then have "2147483648 * (k + 1) \<le> - 9007199254740992" by simp
        with E lo hi show False by linarith
      next
        case False
        then have "- 4194303 \<le> k + 1" by linarith
        then have "2147483648 * (- 4194303) \<le> 2147483648 * (k + 1)"
          by (intro mult_left_mono) simp_all
        then have "- 9007197107257344 \<le> 2147483648 * (k + 1)" by simp
        with E lo show False by linarith
      qed
    qed
  qed
qed

lemma next_rand_below_one: "fst (next_rand sd) \<le> 4294967295 / 2 ^ 32"
proof -
  define n where "n = snd (next_rand sd)"
  from seed_not_all_ones[of sd] next_rand_seed_range[of sd]
  have r: "0 \<le> n" "n \<le> 2147483646" by (simp_all add: n_def)
  define v :: rat where "v = of_int n / 2147483647"
  have "(of_int n::rat) \<le> of_int 2147483646" using r(2) by (simp only: of_int_le_iff)
  then have v1: "v \<le> of_int 4294967295 / 2 ^ 32" by (simp add: v_def)
  have "fl v \<le> of_int 4294967295 / 2 ^ 32"
  proof (cases "v = 0")
    case True
    then show ?thesis by (simp add: fl_def)
  next
    case False
    moreover have "0 \<le> v" using r(1) by (simp add: v_def)
    ultimately have "0 < v" by simp
    from fl_le[OF this v1] show ?thesis by simp
  qed
  then show ?thesis by (simp add: next_rand_value n_def v_def)
qed

lemma rne_near: "\<bar>of_int (rne x) - x\<bar> \<le> 1 / 2"
proof -
  define f where "f = \<lfloor>x\<rfloor>"
  have b: "of_int f \<le> x" "x < of_int f + 1" unfolding f_def by linarith+
  have r: "rne x = (if x - of_int f < 1 / 2 then f
                    else if 1 / 2 < x - of_int f then f + 1
                    else if even f then f else f + 1)"
    by (simp add: rne_def Let_def f_def)
  from b show ?thesis unfolding r by (auto simp: abs_if)
qed

lemma fl_near:
  assumes "0 \<le> q" and "q < 1"
  shows "\<bar>fl q - q\<bar> \<le> 1 / 2 ^ 54"
proof (cases "q = 0")
  case True
  then show ?thesis by (simp add: fl_def)
next
  case False
  with assms have q0: "0 < q" by simp
  define e where "e = expo q"
  from expo_bounds[OF q0] have lo: "2 powi e \<le> q" by (simp add: e_def)
  with assms(2) have "(2::rat) powi e < 2 powi 0" by simp
  then have e0: "e \<le> - 1"
    by (smt (verit) power_int_increasing one_le_numeral not_less)
  define u :: rat where "u = 2 powi (e - 52)"
  have u0: "0 < u" by (simp add: u_def)
  have "u \<le> 2 powi (- 53)" unfolding u_def using e0 by (intro power_int_increasing) simp_all
  then have u53: "u \<le> 1 / 2 ^ 53" by (simp add: power_int_minus field_simps)
  have fl: "fl q = of_int (rne (q / u)) * u"
    using q0 by (simp add: fl_def Let_def pow2_powi e_def u_def)
  have "fl q - q = (of_int (rne (q / u)) - q / u) * u"
    using u0 by (simp add: fl field_simps)
  then have "\<bar>fl q - q\<bar> = \<bar>of_int (rne (q / u)) - q / u\<bar> * u"
    using u0 by (simp add: abs_mult)
  also have "\<dots> \<le> (1 / 2) * u"
    using rne_near[of "q / u"] u0 by (intro mult_right_mono) simp_all
  also have "\<dots> \<le> (1 / 2) * (1 / 2 ^ 53)" using u53 by simp
  finally show ?thesis by simp
qed

lemma next_rand_near:
  "\<bar>fst (next_rand sd) - of_int (snd (next_rand sd)) / 2147483647\<bar> \<le> 1 / 2 ^ 54"
proof -
  define n where "n = snd (next_rand sd)"
  from seed_not_all_ones[of sd] next_rand_seed_range[of sd]
  have r: "0 \<le> n" "n < 2147483647" by (simp_all add: n_def)
  define v :: rat where "v = of_int n / 2147483647"
  have v0: "0 \<le> v" using r(1) by (simp add: v_def)
  have "(of_int n::rat) < of_int 2147483647" using r(2) by (simp only: of_int_less_iff)
  then have v1: "v < 1" by (simp add: v_def)
  from fl_near[OF v0 v1] show ?thesis by (simp add: next_rand_value n_def v_def)
qed

text \<open>
  C5, as the code has it. For every integer seed the new seed is
  \<open>R (R (seed * 1103515245) + 12345) mod 2^31\<close>, where \<open>R\<close> is \<open>round53\<close>, the
  rounding of a double on integers; it lies in \<open>[0, 2^31 - 1)\<close>. The value returned is
  the new seed divided by \<open>2^31 - 1\<close> (the constant \<open>0x7fffffff\<close>), rounded to a
  double: it is within \<open>2^-54\<close> of the quotient and lies in \<open>[0, 1)\<close>.
  \<open>nextInt max\<close> is the floor of the rounded product of that value and \<open>max\<close>. When
  \<open>|seed| * 1103515245 + 12345 < 2^53\<close> nothing is rounded and the new seed is
  \<open>(seed * 1103515245 + 12345) mod 2^31\<close>.
\<close>

theorem next_rand_spec:
  "snd (next_rand sd) = round53 (round53 (sd * 1103515245) + 12345) mod 2 ^ 31 \<and>
   0 \<le> snd (next_rand sd) \<and> snd (next_rand sd) < 2 ^ 31 - 1 \<and>
   fst (next_rand sd) = fl (of_int (snd (next_rand sd)) / (2 ^ 31 - 1)) \<and>
   \<bar>fst (next_rand sd) - of_int (snd (next_rand sd)) / (2 ^ 31 - 1)\<bar> \<le> 1 / 2 ^ 54 \<and>
   0 \<le> fst (next_rand sd) \<and> fst (next_rand sd) < 1 \<and>
   nextInt mx sd = (\<lfloor>fl (fst (next_rand sd) * of_int mx)\<rfloor>, snd (next_rand sd)) \<and>
   (\<bar>sd\<bar> * 1103515245 + 12345 < 2 ^ 53 \<longrightarrow>
      snd (next_rand sd) = (sd * 1103515245 + 12345) mod 2 ^ 31)"
proof -
  have f0: "snd (next_rand sd) = round53 (round53 (sd * 1103515245) + 12345) mod 2 ^ 31"
    by (rule next_rand_round53)
  have f1: "0 \<le> snd (next_rand sd)"
    using next_rand_seed_range[of sd] by simp
  have f2: "snd (next_rand sd) < 2 ^ 31 - 1"
    using next_rand_seed_range[of sd] seed_not_all_ones[of sd] by simp
  have f3: "fst (next_rand sd) = fl (of_int (snd (next_rand sd)) / (2 ^ 31 - 1))"
    using next_rand_value[of sd] by simp
  have f4: "\<bar>fst (next_rand sd) - of_int (snd (next_rand sd)) / (2 ^ 31 - 1)\<bar> \<le> 1 / 2 ^ 54"
    using next_rand_near[of sd] by simp
  have f5: "0 \<le> fst (next_rand sd)"
    using next_rand_unit[of sd] by simp
  have "(4294967295::rat) / 2 ^ 32 < 1" by simp
  with next_rand_below_one[of sd] have f6: "fst (next_rand sd) < 1" by (rule le_less_trans)
  have f7: "nextInt mx sd = (\<lfloor>fl (fst (next_rand sd) * of_int mx)\<rfloor>, snd (next_rand sd))"
    by (simp add: nextInt_def split: prod.splits)
  have f8: "snd (next_rand sd) = (sd * 1103515245 + 12345) mod 2 ^ 31"
    if a: "\<bar>sd\<bar> * 1103515245 + 12345 < 2 ^ 53"
    using next_rand_exact[OF a] by simp
  from f0 f1 f2 f3 f4 f5 f6 f7 f8 show ?thesis by blast
qed

text \<open>
  Seed 1 is in the exact range. The seed 1103527590 that it leads to is not: the
  product is rounded, and the theorem gives the new seed from \<open>round53\<close>.
\<close>

theorem next_rand_spec_witness:
  "\<bar>1\<bar> * 1103515245 + 12345 < (2::int) ^ 53 \<and>
   snd (next_rand 1) = 1103527590 \<and> fst (next_rand 1) < 1 \<and>
   nextInt 52 1 = (26, 1103527590) \<and>
   round53 (1103527590 * 1103515245) = 1217759518843109632 \<and>
   snd (next_rand 1103527590) = 377401600"
proof -
  have a: "\<bar>1\<bar> * 1103515245 + 12345 < (2::int) ^ 53" by simp
  have b: "nextInt 52 1 = (26, 1103527590)" by code_simp
  from next_rand_spec[of 1 52] a
  have c: "snd (next_rand 1) = (1 * 1103515245 + 12345) mod 2 ^ 31"
    and d: "fst (next_rand 1) < 1" by blast+
  have "(1 * 1103515245 + 12345) mod 2 ^ 31 = (1103527590::int)" by simp
  with c have e: "snd (next_rand 1) = 1103527590" by (simp only:)
  have f: "round53 (1103527590 * 1103515245) = 1217759518843109632" by code_simp
  have g: "round53 (1217759518843109632 + 12345) mod 2 ^ 31 = 377401600" by code_simp
  from next_rand_spec[of 1103527590 52]
  have "snd (next_rand 1103527590) =
          round53 (round53 (1103527590 * 1103515245) + 12345) mod 2 ^ 31" by blast
  with f g have h: "snd (next_rand 1103527590) = 377401600" by (simp only:)
  from a b d e f h show ?thesis by blast
qed

text \<open>
  From seed 1 the value is \<open>1103527590 / (2^31 - 1)\<close> rounded, not
  \<open>1103527590 / 2^31\<close>; and from the seed 1103527590 so reached the product exceeds
  \<open>2^53\<close>, is rounded, and the new seed is 377401600, not the exact residue 377401575.
\<close>

theorem next_rand_counterexample:
  "snd (next_rand 1) = 1103527590 \<and>
   fst (next_rand 1) = 4628530187002687 / 9007199254740992 \<and>
   fst (next_rand 1) \<noteq> 1103527590 / 2 ^ 31 \<and>
   snd (next_rand 1103527590) = 377401600 \<and>
   (1103527590 * 1103515245 + 12345) mod 2 ^ 31 = (377401575::int)"
  by code_simp

subsection \<open>The partition invariant (C1)\<close>

lemma pileKeys_simps [simp]:
  "pileKeys [] = {#}" "pileKeys (x # xs) = add_mset (map_option cardKey x) (pileKeys xs)"
  "pileKeys (xs @ ys) = pileKeys xs + pileKeys ys" "pileKeys (rev xs) = pileKeys xs"
  by (simp_all add: pileKeys_def)

lemma pileKeys_concat: "pileKeys (concat ps) = (\<Sum>p\<leftarrow>ps. pileKeys p)"
  by (induction ps) simp_all

lemma pileKeys_allSlots: "mset (map (map_option cardKey) (allSlots s)) = allKeys s"
  by (simp add: allSlots_def allKeys_def pileKeys_concat pileKeys_def[symmetric] del: mset_map)

lemma partitioned_allKeys:
  "partitioned s \<longleftrightarrow>
     length (foundations s) = 4 \<and> length (tableau s) = 7 \<and> allKeys s = mset (map Some fullDeck)"
  by (simp only: partitioned_def pileKeys_allSlots)

lemma pileKeys_update:
  "i < length ps \<Longrightarrow> (\<Sum>p\<leftarrow>ps[i := q]. pileKeys p) + pileKeys (ps ! i) = (\<Sum>p\<leftarrow>ps. pileKeys p) + pileKeys q"
proof (induction ps arbitrary: i)
  case Nil
  then show ?case by simp
next
  case (Cons a ps)
  then show ?case by (cases i) (simp_all add: ac_simps)
qed

lemma pileKeys_take_drop: "pileKeys (take n p) + pileKeys (drop n p) = pileKeys p"
  by (metis append_take_drop_id pileKeys_simps(3))

lemma pileKeys_butlast_last: "p \<noteq> [] \<Longrightarrow> pileKeys (butlast p) + pileKeys [last p] = pileKeys p"
  by (metis append_butlast_last_id pileKeys_simps(3))

lemma cardKey_faceUp: "cardKey (c\<lparr>faceUp := b\<rparr>) = cardKey c"
  by (simp add: cardKey_def)

lemma partitioned_snapshot:
  "partitioned \<lparr>stock = stock s, waste = waste s, foundations = foundations s,
                 tableau = tableau s, moves = moves s, score = score s\<rparr> = partitioned s"
  by (simp add: partitioned_def allSlots_def)

lemma history_saveState:
  assumes "gameInv s" and "h \<in> set (history (saveState s))"
  shows "partitioned h"
proof -
  let ?snap = "\<lparr>stock = stock s, waste = waste s, foundations = foundations s,
                 tableau = tableau s, moves = moves s, score = score s\<rparr>"
  have "set (history (saveState s)) \<subseteq> set (history s @ [?snap])"
    by (auto simp: saveState_def Let_def dest: list.set_sel(2)[rotated])
  with assms(2) have "h \<in> set (history s) \<or> h = ?snap" by auto
  with assms(1) show ?thesis by (auto simp: gameInv_def partitioned_snapshot)
qed

lemma gameInv_intro:
  assumes "gameInv s" and "history s' = history (saveState s) \<or> history s' = history s"
    and "length (foundations s') = length (foundations s)"
    and "length (tableau s') = length (tableau s)"
    and "allKeys s' = allKeys s"
  shows "gameInv s'"
proof -
  from assms(1) have p: "partitioned s" by (simp add: gameInv_def)
  with assms(3-5) have "partitioned s'" by (simp add: partitioned_allKeys)
  moreover have "\<forall>h \<in> set (history s'). partitioned h"
    using assms(1,2) history_saveState[OF assms(1)] by (auto simp: gameInv_def)
  ultimately show ?thesis by (simp add: gameInv_def)
qed

subsection \<open>undo\<close>

lemma undo_gameInv:
  assumes "gameInv s" and "undo s = (b, s')"
  shows "gameInv s'"
proof (cases "history s = []")
  case True
  with assms show ?thesis by (simp add: undo_def)
next
  case False
  let ?h = "last (history s)"
  from False assms(1) have ph: "partitioned ?h" by (simp add: gameInv_def)
  from False assms(2) have s': "stock s' = stock ?h" "waste s' = waste ?h"
      "foundations s' = foundations ?h" "tableau s' = tableau ?h"
      "history s' = butlast (history s)"
    by (auto simp: undo_def Let_def)
  from ph s' have "partitioned s'" by (simp add: partitioned_def allSlots_def)
  moreover have "\<forall>h \<in> set (history s'). partitioned h"
    using assms(1) s'(5) by (auto simp: gameInv_def dest: in_set_butlastD)
  ultimately show ?thesis by (simp add: gameInv_def)
qed

subsection \<open>drawFromStock\<close>

lemma flipDown_keys: "flipDown xs = Inr ys \<Longrightarrow> pileKeys ys = pileKeys xs"
  by (induction xs arbitrary: ys rule: flipDown.induct)
     (auto simp: cardKey_faceUp split: sum.splits)

lemma drawLoop_keys:
  "drawLoop n st wa = Inr (st', wa') \<Longrightarrow> pileKeys st' + pileKeys wa' = pileKeys st + pileKeys wa"
proof (induction n st wa rule: drawLoop.induct)
  case (1 st wa)
  then show ?case by simp
next
  case (2 n st wa)
  from "2.prems" have ne: "st \<noteq> []" by (auto split: if_splits)
  with "2.prems" obtain c where c: "last st = Some c"
    and r: "drawLoop n (butlast st) (wa @ [Some (c\<lparr>faceUp := True\<rparr>)]) = Inr (st', wa')"
    by (auto split: option.splits)
  from "2.IH"[OF ne c r]
  have "pileKeys st' + pileKeys wa' = pileKeys (butlast st) + pileKeys wa + pileKeys [last st]"
    by (simp add: c cardKey_faceUp)
  with pileKeys_butlast_last[OF ne] show ?case by (simp add: ac_simps)
qed

lemma drawFromStock_gameInv:
  assumes "gameInv s" and "drawFromStock cfg s = Inr (b, s')"
  shows "gameInv s'"
proof (cases "stock s = []")
  case True
  show ?thesis
  proof (cases "waste s = []")
    case w: True
    with True assms show ?thesis by (simp add: drawFromStock_def)
  next
    case w: False
    with True assms(2) obtain newStock where
      f: "flipDown (rev (waste s)) = Inr newStock" and
      s': "stock s' = newStock" "waste s' = []" "foundations s' = foundations s"
          "tableau s' = tableau s" "history s' = history (saveState s)"
      by (auto simp: drawFromStock_def Let_def split: sum.splits if_splits)
    from flipDown_keys[OF f] True s' have "allKeys s' = allKeys s"
      by (simp add: allKeys_def)
    with assms(1) s' show ?thesis by (intro gameInv_intro[of s s']) simp_all
  qed
next
  case False
  with assms(2) obtain st wa where
    d: "drawLoop (nat (min (drawCount cfg) (int (length (stock s))))) (stock s) (waste s) =
          Inr (st, wa)" and
    s': "stock s' = st" "waste s' = wa" "foundations s' = foundations s"
        "tableau s' = tableau s" "history s' = history (saveState s)"
    by (auto simp: drawFromStock_def Let_def split: sum.splits prod.splits)
  from drawLoop_keys[OF d] s' have "allKeys s' = allKeys s"
    by (simp add: allKeys_def)
  with assms(1) s' show ?thesis by (intro gameInv_intro[of s s']) simp_all
qed

subsection \<open>moveCards with validated arguments\<close>

lemma pop_keys: "p \<noteq> [] \<Longrightarrow> pop p = (c, rest) \<Longrightarrow> pileKeys rest + pileKeys [c] = pileKeys p"
  using pileKeys_butlast_last[of p] by (auto simp: pop_def)

lemma removeFromSource_waste:
  "location d = ''waste'' \<Longrightarrow>
   removeFromSource d s = Inr ([fst (pop (waste s))], False, s\<lparr>waste := snd (pop (waste s))\<rparr>)"
  by (simp add: removeFromSource_def split: prod.splits)

lemma removeFromSource_foundation:
  "location d = ''foundation'' \<Longrightarrow> pileIndex d = Some i \<Longrightarrow> i < length (foundations s) \<Longrightarrow>
   removeFromSource d s =
     Inr ([fst (pop (foundations s ! i))], False,
          s\<lparr>foundations := (foundations s)[i := snd (pop (foundations s ! i))]\<rparr>)"
  by (simp add: removeFromSource_def split: prod.splits)

lemma removeFromSource_tableau:
  "location d = ''tableau'' \<Longrightarrow> pileIndex d = Some i \<Longrightarrow> i < length (tableau s) \<Longrightarrow>
   start = (case index d of None \<Rightarrow> 0 | Some j \<Rightarrow> j) \<Longrightarrow>
   removeFromSource d s =
     (if length (take start (tableau s ! i)) > 0 then
        (case last (take start (tableau s ! i)) of
           None \<Rightarrow> Inl TypeError
         | Some newTop \<Rightarrow>
             if \<not> faceUp newTop then
               Inr (drop start (tableau s ! i), True,
                    s\<lparr>tableau := (tableau s)
                        [i := butlast (take start (tableau s ! i)) @
                              [Some (newTop\<lparr>faceUp := True\<rparr>)]]\<rparr>)
             else Inr (drop start (tableau s ! i), False,
                       s\<lparr>tableau := (tableau s)[i := take start (tableau s ! i)]\<rparr>))
      else Inr (drop start (tableau s ! i), False,
                s\<lparr>tableau := (tableau s)[i := take start (tableau s ! i)]\<rparr>))"
  by (simp add: removeFromSource_def Let_def split: option.split)

lemma cancel_step:
  fixes U :: "'a multiset"
  assumes "U + Kold = S + Kr" and "Kr + Kc = Kold"
  shows "U + Kc = S"
proof -
  from assms have "U + (Kr + Kc) = S + Kr" by simp
  then have "(U + Kc) + Kr = S + Kr" by (simp add: ac_simps)
  then show ?thesis by simp
qed

lemma cancel_step2:
  fixes U :: "'a multiset"
  assumes "U + Kold = S + (Kold + Kc)"
  shows "U = S + Kc"
proof -
  from assms have "U + Kold = (S + Kc) + Kold" by (simp add: ac_simps)
  then show ?thesis by simp
qed

text \<open>Adding the same cards to one component on both sides.\<close>

lemma allKeys_eqI:
  assumes "pileKeys (stock a) + x = pileKeys (stock b) + y"
    and "waste a = waste b" "foundations a = foundations b" "tableau a = tableau b"
  shows "allKeys a + x = allKeys b + y"
proof -
  have "allKeys a + x = (pileKeys (stock a) + x) + pileKeys (waste b) +
          (\<Sum>p\<leftarrow>foundations b. pileKeys p) + (\<Sum>p\<leftarrow>tableau b. pileKeys p)"
    unfolding allKeys_def assms(2-4) by (simp add: ac_simps)
  also have "\<dots> = allKeys b + y"
    unfolding allKeys_def assms(1) by (simp add: ac_simps)
  finally show ?thesis .
qed

lemma allKeys_waste_eqI:
  assumes "pileKeys (waste a) + x = pileKeys (waste b) + y"
    and "stock a = stock b" "foundations a = foundations b" "tableau a = tableau b"
  shows "allKeys a + x = allKeys b + y"
proof -
  have "allKeys a + x = pileKeys (stock b) + (pileKeys (waste a) + x) +
          (\<Sum>p\<leftarrow>foundations b. pileKeys p) + (\<Sum>p\<leftarrow>tableau b. pileKeys p)"
    unfolding allKeys_def assms(2-4) by (simp add: ac_simps)
  also have "\<dots> = allKeys b + y"
    unfolding allKeys_def assms(1) by (simp add: ac_simps)
  finally show ?thesis .
qed

lemma allKeys_foundations_eqI:
  assumes "(\<Sum>p\<leftarrow>foundations a. pileKeys p) + x = (\<Sum>p\<leftarrow>foundations b. pileKeys p) + y"
    and "stock a = stock b" "waste a = waste b" "tableau a = tableau b"
  shows "allKeys a + x = allKeys b + y"
proof -
  have "allKeys a + x = pileKeys (stock b) + pileKeys (waste b) +
          ((\<Sum>p\<leftarrow>foundations a. pileKeys p) + x) + (\<Sum>p\<leftarrow>tableau b. pileKeys p)"
    unfolding allKeys_def assms(2-4) by (simp add: ac_simps)
  also have "\<dots> = allKeys b + y"
    unfolding allKeys_def assms(1) by (simp add: ac_simps)
  finally show ?thesis .
qed

lemma allKeys_tableau_eqI:
  assumes "(\<Sum>p\<leftarrow>tableau a. pileKeys p) + x = (\<Sum>p\<leftarrow>tableau b. pileKeys p) + y"
    and "stock a = stock b" "waste a = waste b" "foundations a = foundations b"
  shows "allKeys a + x = allKeys b + y"
proof -
  have "allKeys a + x = pileKeys (stock b) + pileKeys (waste b) +
          (\<Sum>p\<leftarrow>foundations b. pileKeys p) + ((\<Sum>p\<leftarrow>tableau a. pileKeys p) + x)"
    unfolding allKeys_def assms(2-4) by (simp add: ac_simps)
  also have "\<dots> = allKeys b + y"
    unfolding allKeys_def assms(1) by (simp add: ac_simps)
  finally show ?thesis .
qed

lemma removeFromSource_keys_waste:
  assumes "validSource s d" and "removeFromSource d s = Inr (cards, flipped, s1)"
   and w: "location d = ''waste''"
  shows "allKeys s1 + pileKeys cards = allKeys s \<and>
         length (foundations s1) = length (foundations s) \<and>
         length (tableau s1) = length (tableau s)"
proof -
  from w assms(1) have ne: "waste s \<noteq> []" by (simp add: validSource_def)
  define c where "c = fst (pop (waste s))"
  define rest where "rest = snd (pop (waste s))"
  have p: "pop (waste s) = (c, rest)" by (simp add: c_def rest_def)
  from removeFromSource_waste[OF w, of s] assms(2)
  have e: "cards = [c]" "s1 = s\<lparr>waste := rest\<rparr>" by (simp_all add: c_def rest_def)
  have "pileKeys (waste s1) + pileKeys cards = pileKeys (waste s) + {#}"
    using pop_keys[OF ne p] by (simp only: e add_0_right) simp
  then have "allKeys s1 + pileKeys cards = allKeys s + {#}"
    by (rule allKeys_waste_eqI) (simp_all add: e)
  then show ?thesis by (simp add: e)
qed

lemma removeFromSource_keys_foundation:
  assumes "validSource s d" and "removeFromSource d s = Inr (cards, flipped, s1)"
   and f: "location d \<noteq> ''waste''" "location d = ''foundation''"
  shows "allKeys s1 + pileKeys cards = allKeys s \<and>
         length (foundations s1) = length (foundations s) \<and>
         length (tableau s1) = length (tableau s)"
proof -
    from f assms(1) obtain i where i: "pileIndex d = Some i" "i < length (foundations s)"
        "foundations s ! i \<noteq> []"
      by (cases "pileIndex d") (simp_all add: validSource_def)
    define c where "c = fst (pop (foundations s ! i))"
    define rest where "rest = snd (pop (foundations s ! i))"
    have p: "pop (foundations s ! i) = (c, rest)" by (simp add: c_def rest_def)
    from removeFromSource_foundation[OF f(2) i(1,2)] assms(2)
    have e: "cards = [c]" "s1 = s\<lparr>foundations := (foundations s)[i := rest]\<rparr>"
      by (simp_all add: c_def rest_def)
    have "(\<Sum>p\<leftarrow>(foundations s)[i := rest]. pileKeys p) + pileKeys [c] =
          (\<Sum>p\<leftarrow>foundations s. pileKeys p)"
      by (rule cancel_step[OF pileKeys_update[OF i(2), of rest] pop_keys[OF i(3) p]])
    then have "(\<Sum>p\<leftarrow>foundations s1. pileKeys p) + pileKeys cards =
          (\<Sum>p\<leftarrow>foundations s. pileKeys p) + {#}"
      by (simp only: e add_0_right) simp
    then have "allKeys s1 + pileKeys cards = allKeys s + {#}"
      by (rule allKeys_foundations_eqI) (simp_all add: e)
    then show ?thesis by (simp add: e)
qed

lemma removeFromSource_keys_tableau:
  assumes "validSource s d" and "removeFromSource d s = Inr (cards, flipped, s1)"
   and t: "location d \<noteq> ''waste''" "location d \<noteq> ''foundation''" "location d = ''tableau''"
  shows "allKeys s1 + pileKeys cards = allKeys s \<and>
         length (foundations s1) = length (foundations s) \<and>
         length (tableau s1) = length (tableau s)"
proof -
    from t assms(1) obtain i where i: "pileIndex d = Some i" "i < length (tableau s)"
      by (cases "pileIndex d") (simp_all add: validSource_def)
    define start where "start = (case index d of None \<Rightarrow> 0 | Some j \<Rightarrow> j)"
    let ?pile = "take start (tableau s ! i)"
    note r = removeFromSource_tableau[OF t(3) i start_def, unfolded assms(2)]
    have "\<exists>pile'. cards = drop start (tableau s ! i) \<and>
            s1 = s\<lparr>tableau := (tableau s)[i := pile']\<rparr> \<and> pileKeys pile' = pileKeys ?pile"
    proof (cases "length ?pile > 0")
      case False
      from r have "Inr (cards, flipped, s1) =
          (Inr (drop start (tableau s ! i), False,
                s\<lparr>tableau := (tableau s)[i := ?pile]\<rparr>) :: error + (pile \<times> bool \<times> state))"
        by (simp only: False if_False)
      then have "cards = drop start (tableau s ! i)"
          "s1 = s\<lparr>tableau := (tableau s)[i := ?pile]\<rparr>"
        by simp_all
      then show ?thesis by blast
    next
      case True
      from r have r': "Inr (cards, flipped, s1) =
          (case last ?pile of
             None \<Rightarrow> Inl TypeError
           | Some newTop \<Rightarrow>
               if \<not> faceUp newTop then
                 Inr (drop start (tableau s ! i), True,
                      s\<lparr>tableau := (tableau s)
                          [i := butlast ?pile @ [Some (newTop\<lparr>faceUp := True\<rparr>)]]\<rparr>)
               else Inr (drop start (tableau s ! i), False,
                         s\<lparr>tableau := (tableau s)[i := ?pile]\<rparr>))"
        by (simp only: True if_True)
      then obtain newTop where n: "last ?pile = Some newTop"
        by (cases "last ?pile") simp_all
      show ?thesis
      proof (cases "faceUp newTop")
        case up: True
        from r' have "cards = drop start (tableau s ! i)"
            "s1 = s\<lparr>tableau := (tableau s)[i := ?pile]\<rparr>"
          by (simp_all add: n up)
        then show ?thesis by blast
      next
        case up: False
        let ?p' = "butlast ?pile @ [Some (newTop\<lparr>faceUp := True\<rparr>)]"
        from r' have "cards = drop start (tableau s ! i)"
            "s1 = s\<lparr>tableau := (tableau s)[i := ?p']\<rparr>"
          by (simp_all add: n up)
        moreover from True have "?pile \<noteq> []" by auto
        from pileKeys_butlast_last[OF this] n have "pileKeys ?p' = pileKeys ?pile"
          by (simp add: cardKey_faceUp)
        ultimately show ?thesis by blast
      qed
    qed
    then obtain pile' where
      e: "cards = drop start (tableau s ! i)" "s1 = s\<lparr>tableau := (tableau s)[i := pile']\<rparr>"
      and k: "pileKeys pile' = pileKeys ?pile" by blast
    have "pileKeys pile' + pileKeys cards = pileKeys (tableau s ! i)"
      using pileKeys_take_drop[of start "tableau s ! i"] by (simp only: k e(1))
    from cancel_step[OF pileKeys_update[OF i(2), of pile'] this]
    have "(\<Sum>p\<leftarrow>(tableau s)[i := pile']. pileKeys p) + pileKeys cards =
          (\<Sum>p\<leftarrow>tableau s. pileKeys p)" .
    then have "(\<Sum>p\<leftarrow>tableau s1. pileKeys p) + pileKeys cards =
          (\<Sum>p\<leftarrow>tableau s. pileKeys p) + {#}"
      by (simp only: e(2) add_0_right) simp
    then have "allKeys s1 + pileKeys cards = allKeys s + {#}"
      by (rule allKeys_tableau_eqI) (simp_all add: e)
    then show ?thesis by (simp add: e)
qed

lemma removeFromSource_keys:
  assumes "validSource s d" and "removeFromSource d s = Inr (cards, flipped, s1)"
  shows "allKeys s1 + pileKeys cards = allKeys s \<and>
         length (foundations s1) = length (foundations s) \<and>
         length (tableau s1) = length (tableau s)"
proof -
  have tags: "location d = ''waste'' \<or> location d = ''foundation'' \<or> location d = ''tableau''"
  proof (cases "location d = ''waste''")
    case True
    then show ?thesis by simp
  next
    case w: False
    show ?thesis
    proof (cases "location d = ''foundation''")
      case True
      then show ?thesis by simp
    next
      case False
      with w assms(1) show ?thesis by (simp add: validSource_def)
    qed
  qed
  show ?thesis
  proof (cases "location d = ''waste''")
    case True
    from removeFromSource_keys_waste[OF assms True] show ?thesis .
  next
    case w: False
    show ?thesis
    proof (cases "location d = ''foundation''")
      case True
      from removeFromSource_keys_foundation[OF assms w True] show ?thesis .
    next
      case False
      with tags w have "location d = ''tableau''" by blast
      from removeFromSource_keys_tableau[OF assms w False this] show ?thesis .
    qed
  qed
qed

lemma addToDestination_foundation:
  "location d = ''foundation'' \<Longrightarrow> pileIndex d = Some i \<Longrightarrow> i < length (foundations s) \<Longrightarrow>
   addToDestination cfg d cards flipped s = Inr s1 \<Longrightarrow>
   foundations s1 = (foundations s)[i := foundations s ! i @ cards] \<and>
   stock s1 = stock s \<and> waste s1 = waste s \<and> tableau s1 = tableau s"
  by (auto simp: addToDestination_def Let_def split: if_splits)

lemma addToDestination_tableau:
  "location d = ''tableau'' \<Longrightarrow> pileIndex d = Some i \<Longrightarrow> i < length (tableau s) \<Longrightarrow>
   addToDestination cfg d cards flipped s = Inr s1 \<Longrightarrow>
   tableau s1 = (tableau s)[i := tableau s ! i @ cards] \<and>
   stock s1 = stock s \<and> waste s1 = waste s \<and> foundations s1 = foundations s"
  by (auto simp: addToDestination_def Let_def split: if_splits)

lemma addToDestination_keys:
  assumes "validDest s d" and "addToDestination cfg d cards flipped s = Inr s1"
  shows "allKeys s1 = allKeys s + pileKeys cards \<and>
         length (foundations s1) = length (foundations s) \<and>
         length (tableau s1) = length (tableau s)"
proof (cases "location d = ''foundation''")
  case True
  with assms(1) obtain i where i: "pileIndex d = Some i" "i < length (foundations s)"
    by (cases "pileIndex d") (simp_all add: validDest_def)
  note e = addToDestination_foundation[OF True i assms(2)]
  have "(\<Sum>p\<leftarrow>(foundations s)[i := foundations s ! i @ cards]. pileKeys p) =
        (\<Sum>p\<leftarrow>foundations s. pileKeys p) + pileKeys cards"
    by (rule cancel_step2) (use pileKeys_update[OF i(2), of "foundations s ! i @ cards"] in simp)
  then have "(\<Sum>p\<leftarrow>foundations s1. pileKeys p) + {#} =
             (\<Sum>p\<leftarrow>foundations s. pileKeys p) + pileKeys cards"
    using e by simp
  then have "allKeys s1 + {#} = allKeys s + pileKeys cards"
    by (rule allKeys_foundations_eqI) (simp_all add: e)
  with e show ?thesis by simp
next
  case False
  with assms(1) have t: "location d = ''tableau''" by (simp add: validDest_def)
  with False assms(1) obtain i where i: "pileIndex d = Some i" "i < length (tableau s)"
    by (cases "pileIndex d") (simp_all add: validDest_def)
  note e = addToDestination_tableau[OF t i assms(2)]
  have "(\<Sum>p\<leftarrow>(tableau s)[i := tableau s ! i @ cards]. pileKeys p) =
        (\<Sum>p\<leftarrow>tableau s. pileKeys p) + pileKeys cards"
    by (rule cancel_step2) (use pileKeys_update[OF i(2), of "tableau s ! i @ cards"] in simp)
  then have "(\<Sum>p\<leftarrow>tableau s1. pileKeys p) + {#} =
             (\<Sum>p\<leftarrow>tableau s. pileKeys p) + pileKeys cards"
    using e by simp
  then have "allKeys s1 + {#} = allKeys s + pileKeys cards"
    by (rule allKeys_tableau_eqI) (simp_all add: e)
  with e show ?thesis by simp
qed

lemma validSource_saveState [simp]: "validSource (saveState s) d = validSource s d"
  by (simp add: validSource_def split: option.splits)

lemma allKeys_saveState [simp]: "allKeys (saveState s) = allKeys s"
  by (simp add: allKeys_def)

lemma moveCards_gameInv:
  assumes "gameInv s" and "validSource s f" and "validDest s t"
    and "moveCards cfg f t s = Inr (b, s')"
  shows "gameInv s'"
proof -
  from assms(4) obtain cards flipped s1 s2 where
    r: "removeFromSource f (saveState s) = Inr (cards, flipped, s1)" and
    a: "addToDestination cfg t cards flipped s1 = Inr s2" and
    e: "s' = s2\<lparr>moves := moves s2 + 1\<rparr>"
    by (auto simp: moveCards_def split: sum.splits prod.splits)
  from removeFromSource_keys[OF _ r] assms(2)
  have k1: "allKeys s1 + pileKeys cards = allKeys s"
    and l1: "length (foundations s1) = length (foundations s)"
            "length (tableau s1) = length (tableau s)"
    by simp_all
  from assms(3) l1 have "validDest s1 t"
    by (auto simp: validDest_def split: option.splits if_splits)
  from addToDestination_keys[OF this a]
  have k2: "allKeys s2 = allKeys s1 + pileKeys cards"
    and l2: "length (foundations s2) = length (foundations s1)"
            "length (tableau s2) = length (tableau s1)"
    by simp_all
  have "allKeys s' = allKeys s2" by (simp add: e allKeys_def)
  with k1 k2 have k: "allKeys s' = allKeys s" by simp
  from moveCards_frame[OF assms(4)] have h: "history s' = history (saveState s)" by simp
  from assms(1) h l1 l2 k show ?thesis
    by (intro gameInv_intro[of s s']) (simp_all add: e)
qed

subsection \<open>tryAutoMove\<close>

lemma findIndex_found: "findIndex cid p = Inr (Some k) \<Longrightarrow> p \<noteq> []"
  by (cases p) simp_all

lemma findInPiles_found:
  "findInPiles tag cid ps is = Inr (Some d) \<Longrightarrow>
     location d = tag \<and> (\<exists>i. pileIndex d = Some i \<and> i < length ps \<and> ps ! i \<noteq> [])"
proof (induction "is")
  case Nil
  then show ?case by simp
next
  case (Cons i "is")
  from Cons.prems have l: "i < length ps" by (simp split: if_splits)
  show ?case
  proof (cases "findIndex cid (ps ! i)")
    case (Inl e)
    with Cons.prems l show ?thesis by simp
  next
    case (Inr r)
    show ?thesis
    proof (cases r)
      case None
      with Inr Cons l show ?thesis by simp
    next
      case (Some k)
      with Inr Cons.prems l findIndex_found[of cid "ps ! i" k] show ?thesis by auto
    qed
  qed
qed

lemma findCard_validSource:
  assumes "findCard s cid = Inr (Some loc)"
  shows "validSource s loc"
proof (cases "findIndex cid (waste s)")
  case (Inl e)
  with assms show ?thesis by (simp add: findCard_def)
next
  case (Inr r)
  show ?thesis
  proof (cases r)
    case (Some k)
    with Inr assms findIndex_found[of cid "waste s" k] show ?thesis
      by (auto simp: findCard_def validSource_def)
  next
    case None
    show ?thesis
    proof (cases "findInPiles ''foundation'' cid (foundations s) [0..<4]")
      case (Inl e)
      with None Inr assms show ?thesis by (simp add: findCard_def)
    next
      case f: (Inr rf)
      show ?thesis
      proof (cases rf)
        case (Some d)
        with f None Inr assms have "d = loc" by (simp add: findCard_def)
        with findInPiles_found[of "''foundation''" cid "foundations s" "[0..<4]" d] f Some
        show ?thesis by (auto simp: validSource_def)
      next
        case n: None
        with f None Inr assms
        have "findInPiles ''tableau'' cid (tableau s) [0..<7] = Inr (Some loc)"
          by (simp add: findCard_def)
        from findInPiles_found[OF this] show ?thesis by (auto simp: validSource_def)
      qed
    qed
  qed
qed

lemma getFoundationIndex_less: "getFoundationIndex su < 4"
  by (cases su) (simp_all add: getFoundationIndex_def SUITS_def)

lemma autoTableau_member: "autoTableau s loc c is = Inr (Some i) \<Longrightarrow> i \<in> set is"
proof (induction "is")
  case Nil
  then show ?case by simp
next
  case (Cons k ks)
  show ?case
  proof (cases "location loc = ''tableau'' \<and> pileIndex loc = Some k")
    case True
    with Cons show ?thesis by simp
  next
    case False
    then have u: "autoTableau s loc c (k # ks) =
      (case canPlaceOnTableau s c k of
         Inl e \<Rightarrow> Inl e
       | Inr True \<Rightarrow> Inr (Some k)
       | Inr False \<Rightarrow> autoTableau s loc c ks)"
      by (simp only: autoTableau.simps if_False)
    show ?thesis
    proof (cases "canPlaceOnTableau s c k")
      case (Inl e)
      with u Cons.prems show ?thesis by simp
    next
      case (Inr b)
      with u Cons show ?thesis by (cases b) auto
    qed
  qed
qed

lemma autoToTableau_gameInv:
  assumes "gameInv s" and "validSource s loc" and "autoToTableau cfg s loc c = Inr (d, s')"
  shows "gameInv s'"
proof (cases "autoTableau s loc c [0..<7]")
  case (Inl e)
  with assms(3) show ?thesis by (simp add: autoToTableau_def)
next
  case (Inr r)
  show ?thesis
  proof (cases r)
    case None
    with Inr assms show ?thesis by (simp add: autoToTableau_def)
  next
    case (Some i)
    let ?dest = "\<lparr>location = ''tableau'', pileIndex = Some i, index = None\<rparr>"
    from autoTableau_member[of s loc c "[0..<7]" i] Inr Some have "i < 7" by simp
    moreover from assms(1) have "length (tableau s) = 7" by (simp add: gameInv_def partitioned_def)
    ultimately have v: "validDest s ?dest" by (simp add: validDest_def)
    from assms(3) Inr Some obtain b where "moveCards cfg loc ?dest s = Inr (b, s')"
      by (auto simp: autoToTableau_def Let_def split: sum.splits)
    from moveCards_gameInv[OF assms(1,2) v this] show ?thesis .
  qed
qed

lemma tryAutoMove_gameInv:
  assumes "gameInv s" and "tryAutoMove cfg cid s = Inr (d, s')"
  shows "gameInv s'"
proof (cases "findCard s cid")
  case (Inl e)
  with assms(2) show ?thesis by (simp add: tryAutoMove_def)
next
  case (Inr r)
  show ?thesis
  proof (cases r)
    case None
    with Inr assms show ?thesis by (simp add: tryAutoMove_def)
  next
    case (Some loc)
    from findCard_validSource[of s cid loc] Inr Some have vs: "validSource s loc" by simp
    show ?thesis
    proof (cases "cardAt s loc")
      case (Inl e)
      with Inr Some assms(2) show ?thesis by (simp add: tryAutoMove_def)
    next
      case c: (Inr rc)
      show ?thesis
      proof (cases rc)
        case None
        with c Inr Some assms(2) show ?thesis by (simp add: tryAutoMove_def)
      next
        case sc: (Some cd)
        let ?fi = "getFoundationIndex (suit cd)"
        let ?dest = "\<lparr>location = ''foundation'', pileIndex = Some ?fi, index = None\<rparr>"
        from assms(1) have "length (foundations s) = 4"
          by (simp add: gameInv_def partitioned_def)
        with getFoundationIndex_less[of "suit cd"] have vd: "validDest s ?dest"
          by (simp add: validDest_def)
        from assms(2) Inr Some c sc
        consider (same) "s' = s"
          | (found) b where "moveCards cfg loc ?dest s = Inr (b, s')"
          | (tab) "autoToTableau cfg s loc cd = Inr (d, s')"
          by (simp add: tryAutoMove_def Let_def split: if_splits sum.splits bool.splits prod.splits)
        then show ?thesis
        proof cases
          case same
          with assms(1) show ?thesis by simp
        next
          case found
          from moveCards_gameInv[OF assms(1) vs vd found] show ?thesis .
        next
          case tab
          from autoToTableau_gameInv[OF assms(1) vs tab] show ?thesis .
        qed
      qed
    qed
  qed
qed

subsection \<open>The generator stays inside the array\<close>

lemma fl_times_le:
  assumes "0 \<le> r" and "r \<le> of_int k / 2 ^ t" and "0 \<le> mx" and "k * mx < 2 ^ 53" and "0 \<le> k"
  shows "0 \<le> fl (r * of_int mx) \<and> fl (r * of_int mx) \<le> of_int (k * mx) / 2 ^ t"
proof -
  have m: "(0::rat) \<le> of_int mx" using assms(3) by simp
  have q0: "0 \<le> r * of_int mx" using assms(1) m by simp
  have "r * of_int mx \<le> of_int k / 2 ^ t * of_int mx"
    by (rule mult_right_mono[OF assms(2) m])
  then have q1: "r * of_int mx \<le> of_int (k * mx) / 2 ^ t" by simp
  have "fl (r * of_int mx) \<le> of_int (k * mx) / 2 ^ t"
  proof (cases "r * of_int mx = 0")
    case True
    have "(0::rat) \<le> of_int (k * mx) / 2 ^ t" using assms(3,5) by simp
    with True show ?thesis by (simp add: fl_def)
  next
    case False
    have "0 < r * of_int mx"
      by (rule order.not_eq_order_implies_strict[OF False[symmetric] q0])
    from fl_le[OF this q1 assms(4)] show ?thesis .
  qed
  with fl_nonneg[OF q0] show ?thesis by simp
qed

lemma fst_nextInt: "fst (nextInt mx sd) = \<lfloor>fl (fst (next_rand sd) * of_int mx)\<rfloor>"
  by (simp add: nextInt_def split: prod.splits)

text \<open>In general \<open>nextInt max\<close> lies between 0 and \<open>max\<close>, both included.\<close>

lemma nextInt_range:
  assumes "0 \<le> mx" and "mx < 2 ^ 53"
  shows "0 \<le> fst (nextInt mx sd) \<and> fst (nextInt mx sd) \<le> mx"
proof -
  define r where "r = fst (next_rand sd)"
  from next_rand_unit[of sd] have r: "0 \<le> r" "r \<le> of_int 1 / 2 ^ 0" by (simp_all add: r_def)
  from fl_times_le[OF r assms(1)] assms(2)
  have "0 \<le> fl (r * of_int mx)" "fl (r * of_int mx) \<le> of_int mx" by simp_all
  then have "0 \<le> \<lfloor>fl (r * of_int mx)\<rfloor>" "\<lfloor>fl (r * of_int mx)\<rfloor> \<le> mx"
    by (simp_all add: floor_le_iff)
  then show ?thesis by (simp add: fst_nextInt r_def)
qed

text \<open>From a seed in the exact range it lies below \<open>max\<close>.\<close>

lemma nextInt_below:
  assumes "\<bar>sd\<bar> * 1103515245 + 12345 < 2 ^ 53" and "0 < mx" and "mx \<le> 1000"
  shows "fst (nextInt mx sd) < mx"
proof -
  define r where "r = fst (next_rand sd)"
  from next_rand_unit[of sd] have r0: "0 \<le> r" by (simp add: r_def)
  from next_rand_exact[OF assms(1)] have r1: "r \<le> of_int 4294967295 / 2 ^ 32"
    by (simp add: r_def)
  have "4294967295 * mx < (2::int) ^ 53" using assms(3) by simp
  from fl_times_le[OF r0 r1 _ this] assms(2)
  have "fl (r * of_int mx) \<le> of_int (4294967295 * mx) / 2 ^ 32" by simp
  also have "\<dots> < of_int mx" using assms(2) by simp
  finally have "\<lfloor>fl (r * of_int mx)\<rfloor> < mx" by (simp add: floor_less_iff)
  then show ?thesis by (simp add: fst_nextInt r_def)
qed

subsection \<open>The shuffle permutes the deck\<close>

lemma swap_mset:
  assumes "i < length xs" and "0 \<le> j" and "nat j < length xs"
  shows "mset (swap xs i j) = mset xs \<and> length (swap xs i j) = length xs"
proof -
  from assms have "swap xs i j = xs[i := xs ! nat j, nat j := xs ! i]"
    by (simp add: swap_def)
  with mset_swap[OF assms(3,1)] show ?thesis by simp
qed

lemma shuffleLoop_Suc:
  assumes "nextInt (int (Suc n) + 1) sd = (j, sd')"
  shows "shuffleLoop (Suc n) xs sd = shuffleLoop n (swap xs (Suc n) j) sd'"
  by (simp only: shuffleLoop.simps Let_def assms prod.case)

lemma shuffleLoop_mset:
  "Suc n < length xs \<Longrightarrow> length xs \<le> 1000 \<Longrightarrow>
     mset (fst (shuffleLoop n xs sd)) = mset xs \<and> length (fst (shuffleLoop n xs sd)) = length xs"
proof (induction n arbitrary: xs sd)
  case 0
  then show ?case by simp
next
  case (Suc n)
  define j where "j = fst (nextInt (int (Suc n) + 1) sd)"
  define sd' where "sd' = snd (nextInt (int (Suc n) + 1) sd)"
  have n: "nextInt (int (Suc n) + 1) sd = (j, sd')" by (simp add: j_def sd'_def)
  have "int (Suc n) + 1 < 2 ^ 53" using Suc.prems by simp
  from nextInt_range[OF _ this, of sd] have j: "0 \<le> j" "j \<le> int (Suc n) + 1"
    by (simp_all add: j_def)
  with Suc.prems have jl: "nat j < length xs" by linarith
  from Suc.prems have il: "Suc n < length xs" by simp
  from swap_mset[OF il j(1) jl]
  have sw: "mset (swap xs (Suc n) j) = mset xs" "length (swap xs (Suc n) j) = length xs"
    by simp_all
  from Suc.prems sw(2) have "Suc n < length (swap xs (Suc n) j)"
      "length (swap xs (Suc n) j) \<le> 1000"
    by simp_all
  from Suc.IH[OF this, of sd'] sw
  have "mset (fst (shuffleLoop n (swap xs (Suc n) j) sd')) = mset xs"
       "length (fst (shuffleLoop n (swap xs (Suc n) j) sd')) = length xs"
    by simp_all
  then show ?case by (simp only: shuffleLoop_Suc[OF n])
qed

lemma length_createDeck: "length createDeck = 52"
  by (simp add: createDeck_def SUITS_def)

lemma createDeck_keys: "map (map_option cardKey) createDeck = map Some fullDeck"
  by (simp add: createDeck_def fullDeck_def SUITS_def cardKey_def createCard_def)

lemma shuffle_createDeck:
  assumes "\<bar>sd\<bar> * 1103515245 + 12345 < 2 ^ 53"
  shows "mset (fst (shuffle createDeck sd)) = mset createDeck \<and>
         length (fst (shuffle createDeck sd)) = 52"
proof -
  define j where "j = fst (nextInt 52 sd)"
  define sd' where "sd' = snd (nextInt 52 sd)"
  have n: "nextInt 52 sd = (j, sd')" by (simp add: j_def sd'_def)
  from nextInt_range[of 52 sd] have j0: "0 \<le> j" by (simp add: j_def)
  from nextInt_below[OF assms, of 52] have "j < 52" by (simp add: j_def)
  with j0 have jl: "nat j < length createDeck" by (simp add: length_createDeck)
  have il: "51 < length createDeck" by (simp add: length_createDeck)
  from swap_mset[OF il j0 jl]
  have sw: "mset (swap createDeck 51 j) = mset createDeck" "length (swap createDeck 51 j) = 52"
    by (simp_all add: length_createDeck)
  have s: "shuffle createDeck sd = shuffleLoop 50 (swap createDeck 51 j) sd'"
  proof -
    have e: "Suc 50 = 51" by simp
    from n have "nextInt (int (Suc 50) + 1) sd = (j, sd')" by simp
    from shuffleLoop_Suc[OF this, of createDeck]
    have "shuffleLoop 51 createDeck sd = shuffleLoop 50 (swap createDeck 51 j) sd'"
      by (simp only: e)
    then show ?thesis by (simp add: shuffle_def length_createDeck)
  qed
  from shuffleLoop_mset[of 50 "swap createDeck 51 j" sd'] sw s show ?thesis by simp
qed

lemma WINNABLE_SEEDS_exact:
  assumes "r < length WINNABLE_SEEDS"
  shows "\<bar>WINNABLE_SEEDS ! r\<bar> * 1103515245 + 12345 < 2 ^ 53"
proof -
  have "\<forall>sd \<in> set WINNABLE_SEEDS. 0 \<le> sd \<and> sd \<le> 722069"
    by (simp add: WINNABLE_SEEDS_def)
  with assms have "0 \<le> WINNABLE_SEEDS ! r" "WINNABLE_SEEDS ! r \<le> 722069"
    by (simp_all add: nth_mem)
  then show ?thesis by simp
qed


subsection \<open>The deal\<close>

lemma slotAt_card: "None \<notin> set deck \<Longrightarrow> i < length deck \<Longrightarrow> \<exists>c. slotAt deck i = Some c"
  by (cases "deck ! i") (auto simp: slotAt_def dest: nth_mem)

lemma dealRows_ok:
  assumes "None \<notin> set deck"
  shows "cardIndex + length rows \<le> length deck \<Longrightarrow>
     \<exists>p. dealRows deck cardIndex col rows = Inr p \<and>
         pileKeys p = pileKeys (take (length rows) (drop cardIndex deck))"
proof (induction rows arbitrary: cardIndex)
  case Nil
  then show ?case by simp
next
  case (Cons row rows)
  then have l: "cardIndex < length deck" by simp
  from slotAt_card[OF assms l] obtain c where c: "slotAt deck cardIndex = Some c" by blast
  with l have d: "deck ! cardIndex = Some c" by (simp add: slotAt_def)
  from Cons.prems have "Suc cardIndex + length rows \<le> length deck" by simp
  from Cons.IH[OF this] obtain p where
    p: "dealRows deck (Suc cardIndex) col rows = Inr p"
       "pileKeys p = pileKeys (take (length rows) (drop (Suc cardIndex) deck))"
    by blast
  have "drop cardIndex deck = Some c # drop (Suc cardIndex) deck"
    using Cons_nth_drop_Suc[OF l] d by simp
  then have "pileKeys (take (length (row # rows)) (drop cardIndex deck)) =
             add_mset (Some (cardKey c)) (pileKeys (take (length rows) (drop (Suc cardIndex) deck)))"
    by simp
  with c p show ?case by (simp add: cardKey_faceUp)
qed

lemma dealCols_ok:
  assumes "None \<notin> set deck"
  shows "cardIndex + sum_list (map Suc cols) \<le> length deck \<Longrightarrow>
     \<exists>ps. dealCols deck cardIndex cols = Inr (ps, cardIndex + sum_list (map Suc cols)) \<and>
          length ps = length cols \<and>
          (\<Sum>p\<leftarrow>ps. pileKeys p) =
            pileKeys (take (sum_list (map Suc cols)) (drop cardIndex deck))"
proof (induction cols arbitrary: cardIndex)
  case Nil
  then show ?case by simp
next
  case (Cons col cols)
  let ?m = "sum_list (map Suc cols)"
  from Cons.prems have "cardIndex + length [0..<Suc col] \<le> length deck" by simp
  from dealRows_ok[OF assms this, of col] obtain p where
    p: "dealRows deck cardIndex col [0..<Suc col] = Inr p"
       "pileKeys p = pileKeys (take (Suc col) (drop cardIndex deck))"
    by auto
  from Cons.prems have "(cardIndex + Suc col) + ?m \<le> length deck" by simp
  from Cons.IH[OF this] obtain ps where
    ps: "dealCols deck (cardIndex + Suc col) cols = Inr (ps, cardIndex + Suc col + ?m)"
        "length ps = length cols"
        "(\<Sum>p\<leftarrow>ps. pileKeys p) = pileKeys (take ?m (drop (cardIndex + Suc col) deck))"
    by blast
  have "take (Suc col + ?m) (drop cardIndex deck) =
          take (Suc col) (drop cardIndex deck) @ take ?m (drop (cardIndex + Suc col) deck)"
    by (simp only: take_add drop_drop add.commute)
  then have "pileKeys (take (sum_list (map Suc (col # cols))) (drop cardIndex deck)) =
          pileKeys p + (\<Sum>p\<leftarrow>ps. pileKeys p)"
    using p(2) ps(3) by simp
  with p(1) ps(1,2) show ?case by (simp add: ac_simps)
qed

lemma sum_cols: "sum_list (map Suc [0..<7]) = 28"
  by (simp add: upt_rec)

text \<open>\<open>newGame\<close> returns, and its state is partitioned.\<close>

lemma newGame_ok:
  assumes "r < length WINNABLE_SEEDS"
  shows "\<exists>s. newGame r now = Inr s \<and> gameInv s \<and> length (stock s) = 24"
proof -
  define deck where "deck = fst (shuffle createDeck (getRandomWinnableSeed r))"
  from shuffle_createDeck[OF WINNABLE_SEEDS_exact[OF assms]]
  have m: "mset deck = mset createDeck" and l: "length deck = 52"
    by (simp_all add: deck_def getRandomWinnableSeed_def)
  have "None \<notin> set createDeck" by (auto simp: createDeck_def)
  with m have nn: "None \<notin> set deck" by (metis set_mset_mset)
  from l have "0 + sum_list (map Suc [0..<7]) \<le> length deck" by (simp add: sum_cols)
  from dealCols_ok[OF nn this] obtain tab where
    t: "dealCols deck 0 [0..<7] = Inr (tab, 28)" "length tab = 7"
       "(\<Sum>p\<leftarrow>tab. pileKeys p) = pileKeys (take 28 deck)"
    by (auto simp: sum_cols)
  let ?s = "\<lparr>stock = drop 28 deck, waste = [], foundations = [[], [], [], []], tableau = tab,
             moves = 0, score = 0, history = [], startTime = now,
             seed = getRandomWinnableSeed r\<rparr>"
  have n: "newGame r now = Inr ?s"
    using t(1) by (simp add: newGame_def Let_def deck_def)
  have "allKeys ?s = pileKeys (drop 28 deck) + pileKeys (take 28 deck)"
    using t(3) by (simp add: allKeys_def)
  also have "\<dots> = pileKeys deck" using pileKeys_take_drop[of 28 deck] by (simp add: ac_simps)
  also have "\<dots> = pileKeys createDeck" using m by (simp add: pileKeys_def)
  also have "\<dots> = mset (map Some fullDeck)" by (simp only: pileKeys_def createDeck_keys)
  finally have "partitioned ?s" using t(2) by (simp add: partitioned_allKeys)
  then have "gameInv ?s" by (simp add: gameInv_def)
  moreover have "length (stock ?s) = 24" using l by simp
  ultimately show ?thesis using n by blast
qed

lemma reachable_gameInv: "reachable s \<Longrightarrow> gameInv s"
proof (induction rule: reachable.induct)
  case (start r now s)
  from newGame_ok[OF start(1), of now] start(2) show ?case by auto
next
  case (draw s cfg b s')
  from drawFromStock_gameInv[OF draw(3,2)] show ?case .
next
  case (move s fromLocation toLocation cfg b s')
  from moveCards_gameInv[OF move(5,2,3,4)] show ?case .
next
  case (auto s cfg cid d s')
  from tryAutoMove_gameInv[OF auto(3,2)] show ?case .
next
  case (undo s b s')
  from undo_gameInv[OF undo(3,2)] show ?case .
qed

lemma fullDeck_distinct: "distinct fullDeck \<and> length fullDeck = 52"
  by code_simp

text \<open>
  C1. The 52 pairs of \<open>fullDeck\<close> are distinct, and in every state reached from
  \<open>newGame\<close> by draws, validated moves, auto-moves and undos, the cards of the
  stock, the waste, the four foundations and the seven tableau piles are, as a
  multiset of (suit, rank) pairs, exactly those 52: none twice, none missing, and no
  element that is not a card.
\<close>

theorem partition_invariant:
  "distinct fullDeck \<and> length fullDeck = 52 \<and>
   (reachable s \<longrightarrow>
      mset (map (map_option cardKey) (allSlots s)) = mset (map Some fullDeck) \<and>
      length (foundations s) = 4 \<and> length (tableau s) = 7)"
  using reachable_gameInv[of s] fullDeck_distinct
  by (simp add: gameInv_def partitioned_def)

lemma partitioned_cards: "partitioned s \<Longrightarrow> None \<notin> set (allSlots s)"
proof
  assume p: "partitioned s" and n: "None \<in> set (allSlots s)"
  from n have "map_option cardKey None \<in> set (map (map_option cardKey) (allSlots s))"
    by (rule imageI[of None "set (allSlots s)" "map_option cardKey", folded set_map])
  then have "None \<in># mset (map (map_option cardKey) (allSlots s))" by simp
  with p have "None \<in># mset (map Some fullDeck)" by (simp only: partitioned_def)
  then show False by auto
qed

lemma drawLoop_ok:
  "None \<notin> set st \<Longrightarrow> n \<le> length st \<Longrightarrow> \<exists>st' wa'. drawLoop n st wa = Inr (st', wa')"
proof (induction n arbitrary: st wa)
  case 0
  then show ?case by simp
next
  case (Suc n)
  then have ne: "st \<noteq> []" by auto
  with Suc.prems(1) obtain c where c: "last st = Some c"
    by (cases "last st") (auto dest: last_in_set)
  from Suc.prems have "None \<notin> set (butlast st)" "n \<le> length (butlast st)"
    by (auto dest: in_set_butlastD)
  from Suc.IH[OF this] ne c show ?case by simp
qed

lemma drawFromStock_ok:
  assumes "None \<notin> set (stock s)" and "stock s \<noteq> []"
  shows "\<exists>s'. drawFromStock cfg s = Inr (True, s')"
proof -
  let ?n = "nat (min (drawCount cfg) (int (length (stock s))))"
  have "?n \<le> length (stock s)" by simp
  from drawLoop_ok[OF assms(1) this, of "waste s"] obtain st wa where
    "drawLoop ?n (stock s) (waste s) = Inr (st, wa)" by blast
  with assms(2) show ?thesis by (simp add: drawFromStock_def Let_def)
qed

text \<open>A game dealt from the first seed of the list, and one draw.\<close>

theorem partition_invariant_witness:
  "\<exists>s s'. newGame 0 7 = Inr s \<and> drawFromStock standardOne s = Inr (True, s') \<and>
          reachable s' \<and>
          mset (map (map_option cardKey) (allSlots s')) = mset (map Some fullDeck) \<and>
          length (foundations s') = 4 \<and> length (tableau s') = 7"
proof -
  have l: "0 < length WINNABLE_SEEDS" by (simp add: WINNABLE_SEEDS_def)
  from newGame_ok[OF l, of 7] obtain s where
    s: "newGame 0 7 = Inr s" "gameInv s" "length (stock s) = 24" by blast
  from s(2) have "None \<notin> set (allSlots s)" by (simp add: gameInv_def partitioned_cards)
  then have "None \<notin> set (stock s)" by (simp add: allSlots_def)
  moreover from s(3) have "stock s \<noteq> []" by auto
  ultimately obtain s' where d: "drawFromStock standardOne s = Inr (True, s')"
    using drawFromStock_ok by blast
  have "reachable s" by (rule reachable.start[OF l s(1)])
  then have r: "reachable s'" by (rule reachable.draw[OF _ d])
  with partition_invariant[of s'] s(1) d show ?thesis by blast
qed

subsection \<open>The tableau-to-tableau stage of the hint (C7)\<close>

lemma firstSome_append:
  "firstSome g (xs @ ys) = (case firstSome g xs of None \<Rightarrow> firstSome g ys | Some y \<Rightarrow> Some y)"
  by (induction xs) (auto split: option.splits)

lemma firstSome_concat:
  "firstSome g (concat (map f xs)) = firstSome (\<lambda>x. firstSome g (f x)) xs"
  by (induction xs) (auto simp: firstSome_append split: option.splits)

lemma firstSome_map: "firstSome g (map f xs) = firstSome (\<lambda>x. g (f x)) xs"
  by (induction xs) (auto split: option.splits)

lemma bind_find_firstSome:
  "(\<And>x. x \<in> set xs \<Longrightarrow> P x \<Longrightarrow> h x \<noteq> None) \<Longrightarrow>
   Option.bind (find P xs) h = firstSome (\<lambda>x. if P x then h x else None) xs"
proof (induction xs)
  case Nil
  then show ?case by simp
next
  case (Cons a xs)
  show ?case
  proof (cases "P a")
    case True
    with Cons.prems[of a] obtain y where "h a = Some y" by auto
    with True show ?thesis by simp
  next
    case False
    with Cons show ?thesis by simp
  qed
qed

lemma firstSome_cong:
  "(\<And>x. x \<in> set xs \<Longrightarrow> g x = g' x) \<Longrightarrow> firstSome g xs = firstSome g' xs"
  by (induction xs) (auto split: option.splits)

lemma canPlaceOnTableau_total:
  assumes "tableauCards s" "k < 7"
  shows "\<exists>b. canPlaceOnTableau s c k = Inr b"
proof -
  from assms have k: "k < length (tableau s)" and n: "None \<notin> set (tableau s ! k)"
    by (simp_all add: tableauCards_def)
  show ?thesis
  proof (cases "tableau s ! k = []")
    case True
    with k show ?thesis by (simp add: canPlaceOnTableau_def)
  next
    case False
    with n have "last (tableau s ! k) \<noteq> None" by (metis last_in_set)
    with k False show ?thesis by (auto simp: canPlaceOnTableau_def)
  qed
qed

text \<open>The destination loop finds the first admissible pile.\<close>

lemma hintDest_firstSome:
  assumes "tableauCards s" "\<forall>k \<in> set ks. k < 7"
  shows "hintDest s c i j ks =
           Inr (firstSome (\<lambda>k. if k \<noteq> i \<and> canPlaceOnTableau s c k = Inr True \<and>
                                   \<not> (rank c = 13 \<and> j = 0 \<and> tableau s ! k = [])
                                then Some k else None) ks)"
  using assms(2)
proof (induction ks)
  case Nil
  then show ?case by simp
next
  case (Cons k ks)
  then have k: "k < 7" by simp
  from canPlaceOnTableau_total[OF assms(1) k] obtain b where
    b: "canPlaceOnTableau s c k = Inr b" by blast
  with Cons show ?case by (cases b) auto
qed


lemma firstSome_map_option:
  "firstSome (\<lambda>x. if P x then Some (f x) else None) xs =
   map_option f (firstSome (\<lambda>x. if P x then Some x else None) xs)"
  by (induction xs) auto

lemma codedMove_faceDown:
  assumes "slotAt (tableau s ! i) j = Some c" "\<not> faceUp c"
  shows "firstSome (\<lambda>k. codedMove s (i, j, k)) ks = None"
  using assms by (induction ks) (auto simp: codedMove_def movable_def)

lemma codedMove_faceUp:
  assumes "slotAt (tableau s ! i) j = Some c" "faceUp c"
  shows "codedMove s (i, j, k) =
           (if k \<noteq> i \<and> canPlaceOnTableau s c k = Inr True \<and>
               \<not> (rank c = 13 \<and> j = 0 \<and> tableau s ! k = [])
            then Some \<lparr>hint_from = \<lparr>location = ''tableau'', pileIndex = Some i, index = Some j,
                                    cardId = Some (id_card c)\<rparr>,
                      hint_to = \<lparr>location = ''tableau'', pileIndex = Some k, index = None\<rparr>,
                      exposesCard =
                        Some (j > 0 \<and> (case slotAt (tableau s ! i) (j - 1) of
                                          None \<Rightarrow> False
                                        | Some below \<Rightarrow> \<not> faceUp below)),
                      action = None\<rparr>
            else None)"
  using assms by (auto simp: codedMove_def movable_def skipBaseKing_def tableauHint_def)

text \<open>The loop over the cards of a pile.\<close>

lemma hintCards_firstSome:
  assumes "tableauCards s" "i < 7" "\<forall>j \<in> set js. j < length (tableau s ! i)"
  shows "hintCards s i (tableau s ! i) js =
           Inr (firstSome (\<lambda>j. firstSome (\<lambda>k. codedMove s (i, j, k)) [0..<7]) js)"
  using assms(3)
proof (induction js)
  case Nil
  then show ?case by simp
next
  case (Cons j js)
  let ?pile = "tableau s ! i"
  from Cons.prems have j: "j < length ?pile" by simp
  from assms(1,2) have n: "None \<notin> set ?pile" by (simp add: tableauCards_def)
  from j n obtain c where c: "slotAt ?pile j = Some c"
    by (cases "?pile ! j") (auto simp: slotAt_def dest: nth_mem)
  from Cons have IH: "hintCards s i ?pile js =
           Inr (firstSome (\<lambda>j. firstSome (\<lambda>k. codedMove s (i, j, k)) [0..<7]) js)" by simp
  show ?case
  proof (cases "faceUp c")
    case False
    with c IH codedMove_faceDown[OF c False] show ?thesis by simp
  next
    case True
    have below: "j > 0 \<Longrightarrow> \<exists>b. slotAt ?pile (j - 1) = Some b"
    proof -
      assume "j > 0"
      with j have "j - 1 < length ?pile" by simp
      with n show ?thesis by (cases "?pile ! (j - 1)") (auto simp: slotAt_def dest: nth_mem)
    qed
    let ?cond = "\<lambda>k. k \<noteq> i \<and> canPlaceOnTableau s c k = Inr True \<and>
                       \<not> (rank c = 13 \<and> j = 0 \<and> tableau s ! k = [])"
    let ?H = "\<lambda>k. \<lparr>hint_from = \<lparr>location = ''tableau'', pileIndex = Some i, index = Some j,
                                    cardId = Some (id_card c)\<rparr>,
                      hint_to = \<lparr>location = ''tableau'', pileIndex = Some k, index = None\<rparr>,
                      exposesCard =
                        Some (j > 0 \<and> (case slotAt ?pile (j - 1) of
                                          None \<Rightarrow> False
                                        | Some below \<Rightarrow> \<not> faceUp below)),
                      action = None\<rparr>"
    define r where "r = firstSome (\<lambda>k. if ?cond k then Some k else None) [0..<7]"
    have d: "hintDest s c i j [0..<7] = Inr r"
      unfolding r_def by (rule hintDest_firstSome[OF assms(1)]) simp
    have f: "firstSome (\<lambda>k. codedMove s (i, j, k)) [0..<7] = map_option ?H r"
      unfolding codedMove_faceUp[OF c True] r_def by (rule firstSome_map_option)
    have e: "(if j > 0
              then (case slotAt ?pile (j - 1) of
                      None \<Rightarrow> Inl TypeError
                    | Some below \<Rightarrow> Inr (\<not> faceUp below))
              else Inr False) =
             Inr (j > 0 \<and> (case slotAt ?pile (j - 1) of
                              None \<Rightarrow> False
                            | Some below \<Rightarrow> \<not> faceUp below))"
      using below by (cases "j > 0") auto
    show ?thesis
    proof (cases r)
      case None
      with c True IH show ?thesis
        by (simp only: hintCards.simps c option.case True not_True_eq_False if_False e
            sum.case d f firstSome.simps option.map)
    next
      case (Some k)
      with c True IH show ?thesis
        by (simp only: hintCards.simps c option.case True not_True_eq_False if_False e
            sum.case d f firstSome.simps option.map)
    qed
  qed
qed

text \<open>The loop over the source piles.\<close>

lemma hintTableau_firstSome:
  assumes "tableauCards s" "\<forall>i \<in> set is. i < 7"
  shows "hintTableau s is =
           Inr (firstSome (\<lambda>i. firstSome (\<lambda>j. firstSome (\<lambda>k. codedMove s (i, j, k)) [0..<7])
                                   [0..<length (tableau s ! i)]) is)"
  using assms(2)
proof (induction "is")
  case Nil
  then show ?case by simp
next
  case (Cons i "is")
  then have i: "i < 7" by simp
  with assms(1) have l: "i < length (tableau s)" by (simp add: tableauCards_def)
  have "hintCards s i (tableau s ! i) [0..<length (tableau s ! i)] =
           Inr (firstSome (\<lambda>j. firstSome (\<lambda>k. codedMove s (i, j, k)) [0..<7])
                  [0..<length (tableau s ! i)])"
    by (rule hintCards_firstSome[OF assms(1) i]) simp
  with Cons l show ?case by (simp add: Let_def split: option.splits)
qed

lemma hintTableauAmended_firstSome:
  "hintTableauAmended s =
     firstSome (\<lambda>i. firstSome (\<lambda>j. firstSome (\<lambda>k. codedMove s (i, j, k)) [0..<7])
                       [0..<length (tableau s ! i)]) [0..<7]"
proof -
  have "hintTableauAmended s = firstSome (codedMove s) (hintCandidates s False)"
    unfolding hintTableauAmended_def codedMove_def
    by (rule bind_find_firstSome)
       (auto simp: movable_def tableauHint_def split: option.splits)
  then show ?thesis
    by (simp add: hintCandidates_def firstSome_concat firstSome_map)
qed

text \<open>
  C7, as the code has it. With seven tableau piles of cards, the tableau-to-tableau
  stage scans the piles 0 to 6, within a pile the face-up cards by ascending index (from
  the card deepest in the pile towards the top card), and for each card the destination
  piles 0 to 6 other than its own; it returns the first move that \<open>canPlaceOnTableau\<close>
  allows, skipping a King at index 0 of its pile (whatever lies on it) headed for an
  empty pile. When no earlier stage has a hint, that move is the hint of \<open>getHint\<close>,
  and without one the hint is to draw or reset.
\<close>

theorem hint_tableau_search:
  assumes "tableauCards s"
  shows "hintTableau s [0..<7] = Inr (hintTableauAmended s) \<and>
         (noEarlierHint s \<longrightarrow>
            getHint s = Inr (case hintTableauAmended s of
                               Some h \<Rightarrow> Some h
                             | None \<Rightarrow> hintDraw s))"
proof -
  have h: "hintTableau s [0..<7] = Inr (hintTableauAmended s)"
    unfolding hintTableauAmended_firstSome
    by (rule hintTableau_firstSome[OF assms]) simp
  have "noEarlierHint s \<Longrightarrow>
          getHint s = Inr (case hintTableauAmended s of Some h \<Rightarrow> Some h | None \<Rightarrow> hintDraw s)"
    using h
    by (auto simp: noEarlierHint_def getHint_def hintRest_def Let_def
        split: option.splits)
  with h show ?thesis by simp
qed

theorem hint_tableau_search_witness:
  "tableauCards scanExample \<and> noEarlierHint scanExample \<and>
   getHint scanExample = Inr (hintTableauAmended scanExample) \<and>
   hintTableauAmended scanExample =
     Some \<lparr>hint_from = \<lparr>location = ''tableau'', pileIndex = Some 0, index = Some 0,
                          cardId = Some (hearts, 8)\<rparr>,
            hint_to = \<lparr>location = ''tableau'', pileIndex = Some 1, index = None\<rparr>,
            exposesCard = Some False, action = None\<rparr>"
proof -
  have t: "tableauCards scanExample"
    by (simp add: tableauCards_def scanExample_def emptyState_def)
  have n: "noEarlierHint scanExample" by code_simp
  have a: "hintTableauAmended scanExample =
     Some \<lparr>hint_from = \<lparr>location = ''tableau'', pileIndex = Some 0, index = Some 0,
                          cardId = Some (hearts, 8)\<rparr>,
            hint_to = \<lparr>location = ''tableau'', pileIndex = Some 1, index = None\<rparr>,
            exposesCard = Some False, action = None\<rparr>"
    by code_simp
  from hint_tableau_search[OF t] t n a show ?thesis by simp
qed

text \<open>
  The claim as stated fails twice. In \<open>scanExample\<close> the seven of spades on top could
  go on the eight of diamonds, and a scan from the top down would name it; the code
  names the eight of hearts beneath it, which it reaches first. In \<open>kingExample\<close> the
  King, with the queen on it, is no lone King of a single-card pile, yet the code skips
  its move to an empty pile and recommends a draw.
\<close>

theorem hint_tableau_counterexample:
  "noEarlierHint scanExample \<and>
   getHint scanExample =
     Inr (Some \<lparr>hint_from = \<lparr>location = ''tableau'', pileIndex = Some 0, index = Some 0,
                              cardId = Some (hearts, 8)\<rparr>,
                hint_to = \<lparr>location = ''tableau'', pileIndex = Some 1, index = None\<rparr>,
                exposesCard = Some False, action = None\<rparr>) \<and>
   hintTableauClaimed scanExample =
     Some \<lparr>hint_from = \<lparr>location = ''tableau'', pileIndex = Some 0, index = Some 1,
                          cardId = Some (spades, 7)\<rparr>,
            hint_to = \<lparr>location = ''tableau'', pileIndex = Some 2, index = None\<rparr>,
            exposesCard = Some False, action = None\<rparr> \<and>
   noEarlierHint kingExample \<and>
   getHint kingExample =
     Inr (Some \<lparr>hint_from = \<lparr>location = ''stock'', pileIndex = None, index = None,
                              cardId = None\<rparr>,
                hint_to = \<lparr>location = ''waste'', pileIndex = None, index = None\<rparr>,
                exposesCard = None, action = Some ''draw''\<rparr>) \<and>
   hintTableauClaimed kingExample =
     Some \<lparr>hint_from = \<lparr>location = ''tableau'', pileIndex = Some 0, index = Some 0,
                          cardId = Some (spades, 13)\<rparr>,
            hint_to = \<lparr>location = ''tableau'', pileIndex = Some 1, index = None\<rparr>,
            exposesCard = Some False, action = None\<rparr>"
  by code_simp

end
